theory Spec2Isabelle
  imports Main
begin

section \<open>Data model\<close>

text \<open>
  \<^verbatim>\<open>app/models/reminder.py\<close>: the enum \<^verbatim>\<open>ReminderStatus\<close> and the table
  \<^verbatim>\<open>reminders\<close>. The primary key \<^verbatim>\<open>id\<close> is called \<open>rid\<close> here; the two
  \<^verbatim>\<open>DateTime\<close> columns are integers (a UTC timestamp).
\<close>

datatype reminder_status = scheduled | completed | failed

record reminder =
  rid :: int
  title :: string
  message :: string
  phone_number :: string
  trigger_at :: int
  timezone :: string
  status :: reminder_status
  created_at :: int

text \<open>
  Exceptions, all of them subclasses of Python's \<^verbatim>\<open>Exception\<close>, each with the text
  that \<^verbatim>\<open>str(e)\<close> gives. \<^verbatim>\<open>httpx.TimeoutException\<close> is matched before
  \<^verbatim>\<open>httpx.RequestError\<close>, and both before \<^verbatim>\<open>Exception\<close>.
  \<open>InvalidRequestError\<close> is what a database session raises when it is used in a
  state that first needs \<^verbatim>\<open>rollback()\<close> (\<^verbatim>\<open>PendingRollbackError\<close> is one). Task
  cancellation (\<^verbatim>\<open>asyncio.CancelledError\<close>, a \<^verbatim>\<open>BaseException\<close>) is not an \<open>exn\<close>.
\<close>

datatype exn =
    TimeoutException string
  | RequestError string
  | JSONDecodeError string
  | ValidationError string
  | InvalidRequestError string
  | OtherException string

fun exn_str :: "exn \<Rightarrow> string" where
  "exn_str (TimeoutException s) = s"
| "exn_str (RequestError s) = s"
| "exn_str (JSONDecodeError s) = s"
| "exn_str (ValidationError s) = s"
| "exn_str (InvalidRequestError s) = s"
| "exn_str (OtherException s) = s"

section \<open>The call trigger: \<^verbatim>\<open>app/services/vapi.py\<close>\<close>

text \<open>\<^verbatim>\<open>VapiCallResult\<close>, the dataclass returned by \<^verbatim>\<open>trigger_call\<close>.\<close>

record vapi_call_result =
  success :: bool
  call_id :: "string option"
  error_message :: "string option"

text \<open>The four settings that \<^verbatim>\<open>VapiService.__init__\<close> copies from the configuration.\<close>

record vapi_service =
  api_url :: string
  api_key :: string
  assistant_id :: string
  phone_number_id :: string

text \<open>
  A decoded JSON value, as \<^verbatim>\<open>response.json()\<close> returns it. An object is the list of
  its members in document order; Python's decoder keeps the last of two members with
  the same key. A number is kept as an integer: the code reads no number of a body.
\<close>

datatype json =
    JNull
  | JBool bool
  | JNum int
  | JStr string
  | JArr "json list"
  | JObj "(string \<times> json) list"

definition dict_get :: "(string \<times> json) list \<Rightarrow> string \<Rightarrow> json option" where
  "dict_get kvs k = map_of (rev kvs) k"

text \<open>
  \<^verbatim>\<open>app/schemas/vapi.py\<close>: \<^verbatim>\<open>VapiCallStatus\<close> and \<^verbatim>\<open>VapiCallResponse\<close>. Only
  \<^verbatim>\<open>id\<close> is required; the other fields are optional and default to \<^verbatim>\<open>None\<close>.
\<close>

datatype vapi_call_status = queued | ringing | in_progress | forwarding | ended

record vapi_call_response =
  resp_id :: string
  org_id :: "string option"
  resp_created_at :: "string option"
  updated_at :: "string option"
  resp_type :: "string option"
  resp_status :: "vapi_call_status option"
  resp_phone_number_id :: "string option"
  resp_assistant_id :: "string option"

definition parse_call_status :: "string \<Rightarrow> vapi_call_status option" where
  "parse_call_status s =
     (if s = ''queued'' then Some queued
      else if s = ''ringing'' then Some ringing
      else if s = ''in-progress'' then Some in_progress
      else if s = ''forwarding'' then Some forwarding
      else if s = ''ended'' then Some ended
      else None)"

text \<open>
  A field declared \<^verbatim>\<open>str | None = Field(None, alias=...)\<close> under
  \<^verbatim>\<open>populate_by_name = True\<close>: the member is looked up by its alias, then by its
  name; an absent member and \<^verbatim>\<open>null\<close> give \<^verbatim>\<open>None\<close>, a string gives itself, any
  other value is rejected (the outer \<open>None\<close>).
\<close>

definition lookup_field :: "(string \<times> json) list \<Rightarrow> string \<Rightarrow> string \<Rightarrow> json option" where
  "lookup_field kvs alias name =
     (case dict_get kvs alias of Some v \<Rightarrow> Some v | None \<Rightarrow> dict_get kvs name)"

definition opt_str_field :: "json option \<Rightarrow> string option option" where
  "opt_str_field m =
     (case m of
        None \<Rightarrow> Some None
      | Some JNull \<Rightarrow> Some None
      | Some (JStr s) \<Rightarrow> Some (Some s)
      | Some _ \<Rightarrow> None)"

definition opt_status_field :: "json option \<Rightarrow> vapi_call_status option option" where
  "opt_status_field m =
     (case m of
        None \<Rightarrow> Some None
      | Some JNull \<Rightarrow> Some None
      | Some (JStr s) \<Rightarrow> (case parse_call_status s of Some st \<Rightarrow> Some (Some st) | None \<Rightarrow> None)
      | Some _ \<Rightarrow> None)"

text \<open>
  \<^verbatim>\<open>VapiCallResponse.model_validate\<close>: the value must be an object whose \<^verbatim>\<open>id\<close> is a
  string and whose optional members have the declared types; other members are
  ignored. The result is \<open>None\<close> where pydantic raises \<^verbatim>\<open>ValidationError\<close>.
\<close>

definition validate_call_response :: "json \<Rightarrow> vapi_call_response option" where
  "validate_call_response j =
     (case j of
        JObj kvs \<Rightarrow>
          (case dict_get kvs ''id'' of
             Some (JStr i) \<Rightarrow>
               (case (opt_str_field (lookup_field kvs ''orgId'' ''org_id''),
                      opt_str_field (lookup_field kvs ''createdAt'' ''created_at''),
                      opt_str_field (lookup_field kvs ''updatedAt'' ''updated_at''),
                      opt_str_field (dict_get kvs ''type''),
                      opt_status_field (dict_get kvs ''status''),
                      opt_str_field (lookup_field kvs ''phoneNumberId'' ''phone_number_id''),
                      opt_str_field (lookup_field kvs ''assistantId'' ''assistant_id'')) of
                  (Some a, Some b, Some c, Some d, Some e, Some f, Some g) \<Rightarrow>
                    Some \<lparr>resp_id = i, org_id = a, resp_created_at = b, updated_at = c,
                          resp_type = d, resp_status = e, resp_phone_number_id = f,
                          resp_assistant_id = g\<rparr>
                | _ \<Rightarrow> None)
           | _ \<Rightarrow> None)
      | _ \<Rightarrow> None)"

text \<open>
  What lies outside the repository, taken as parameters: \<open>post\<close> is the provider's
  answer to \<^verbatim>\<open>client.post\<close> (an exception or a response); \<open>py_str\<close> is Python's
  \<^verbatim>\<open>str()\<close> on a decoded JSON value that is not a string; \<open>validation_text\<close> is the
  text of pydantic's \<^verbatim>\<open>ValidationError\<close> for a rejected value.
\<close>

record http_request =
  url :: string
  headers :: "(string \<times> string) list"
  payload :: json

record http_response =
  status_code :: int
  body_text :: string
  json_body :: "exn + json"

record outside =
  post :: "http_request \<Rightarrow> exn + http_response"
  py_str :: "json \<Rightarrow> string"
  validation_text :: "json \<Rightarrow> string"

definition model_validate :: "outside \<Rightarrow> json \<Rightarrow> exn + vapi_call_response" where
  "model_validate out j =
     (case validate_call_response j of
        Some r \<Rightarrow> Inr r
      | None \<Rightarrow> Inl (ValidationError (validation_text out j)))"

text \<open>Decimal digits of an integer, as an f-string prints it.\<close>

fun str_nat :: "nat \<Rightarrow> string" where
  "str_nat n =
     (if n < 10 then [''0123456789'' ! n]
      else str_nat (n div 10) @ [''0123456789'' ! (n mod 10)])"

declare str_nat.simps [simp del]

definition str_int :: "int \<Rightarrow> string" where
  "str_int i = (if i < 0 then ''-'' @ str_nat (nat (- i)) else str_nat (nat i))"

definition format_value :: "outside \<Rightarrow> json \<Rightarrow> string" where
  "format_value out v = (case v of JStr s \<Rightarrow> s | _ \<Rightarrow> py_str out v)"

definition get_headers :: "vapi_service \<Rightarrow> (string \<times> string) list" where
  "get_headers svc =
     [(''Authorization'', ''Bearer '' @ api_key svc),
      (''Content-Type'', ''application/json'')]"

definition validate_configuration :: "vapi_service \<Rightarrow> string option" where
  "validate_configuration svc =
     (if api_key svc = [] then Some ''Vapi API key is not configured''
      else if assistant_id svc = [] then Some ''Vapi assistant ID is not configured''
      else if phone_number_id svc = [] then Some ''Vapi phone number ID is not configured''
      else None)"

text \<open>
  \<^verbatim>\<open>request_data.model_dump(by_alias=True, exclude_none=True)\<close> of the
  \<^verbatim>\<open>VapiCreateCallRequest\<close> that \<^verbatim>\<open>trigger_call\<close> builds.
\<close>

definition request_payload :: "vapi_service \<Rightarrow> string \<Rightarrow> string \<Rightarrow> string \<Rightarrow> json" where
  "request_payload svc phone msg reminder_title =
     JObj [(''assistantId'', JStr (assistant_id svc)),
           (''assistantOverrides'',
              JObj [(''firstMessage'',
                     JStr (''Hello! This is your reminder about: '' @ reminder_title @ ''. '' @ msg))]),
           (''phoneNumberId'', JStr (phone_number_id svc)),
           (''customer'', JObj [(''number'', JStr phone)])]"

text \<open>The branch for a response with status 200 or 201 (lines 152 to 168).\<close>

definition parse_success :: "outside \<Rightarrow> http_response \<Rightarrow> vapi_call_result" where
  "parse_success out response =
     (case (case json_body response of
              Inl e \<Rightarrow> Inl e
            | Inr response_json \<Rightarrow> model_validate out response_json) of
        Inr call_response \<Rightarrow>
          \<lparr>success = True, call_id = Some (resp_id call_response), error_message = None\<rparr>
      | Inl e \<Rightarrow>
          \<lparr>success = False, call_id = None,
           error_message = Some (''Error parsing Vapi response: '' @ exn_str e)\<rparr>)"

text \<open>
  The branch for any other status (lines 171 to 185).
  \<^verbatim>\<open>error_json.get("message", error_json.get("error", error_body))\<close> raises on a value
  that is not an object, and the bare \<^verbatim>\<open>except\<close> then falls back to the body text.
\<close>

definition provider_message :: "outside \<Rightarrow> http_response \<Rightarrow> string" where
  "provider_message out response =
     (case json_body response of
        Inr (JObj kvs) \<Rightarrow>
          (case dict_get kvs ''message'' of
             Some v \<Rightarrow> format_value out v
           | None \<Rightarrow>
               (case dict_get kvs ''error'' of
                  Some v \<Rightarrow> format_value out v
                | None \<Rightarrow> body_text response))
      | _ \<Rightarrow> body_text response)"

definition api_error :: "outside \<Rightarrow> http_response \<Rightarrow> vapi_call_result" where
  "api_error out response =
     \<lparr>success = False, call_id = None,
      error_message =
        Some (''Vapi API error ('' @ str_int (status_code response) @ ''): ''
              @ provider_message out response)\<rparr>"

definition handle_response :: "outside \<Rightarrow> http_response \<Rightarrow> vapi_call_result" where
  "handle_response out response =
     (if status_code response = 200 \<or> status_code response = 201
      then parse_success out response
      else api_error out response)"

text \<open>The three \<^verbatim>\<open>except\<close> clauses around the network call (lines 187 to 207).\<close>

fun handle_exception :: "exn \<Rightarrow> vapi_call_result" where
  "handle_exception (TimeoutException s) =
     \<lparr>success = False, call_id = None, error_message = Some ''Vapi API request timed out''\<rparr>"
| "handle_exception (RequestError s) =
     \<lparr>success = False, call_id = None,
      error_message = Some (''Vapi API request failed: '' @ s)\<rparr>"
| "handle_exception e =
     \<lparr>success = False, call_id = None,
      error_message = Some (''Unexpected error calling Vapi API: '' @ exn_str e)\<rparr>"

text \<open>The request that \<^verbatim>\<open>trigger_call\<close> posts (lines 133 to 145).\<close>

definition call_request :: "vapi_service \<Rightarrow> string \<Rightarrow> string \<Rightarrow> string \<Rightarrow> http_request" where
  "call_request svc phone msg reminder_title =
     \<lparr>url = api_url svc @ ''/calls'', headers = get_headers svc,
      payload = request_payload svc phone msg reminder_title\<rparr>"

text \<open>
  \<^verbatim>\<open>VapiService.trigger_call\<close>. The result is paired with the list of requests sent
  to the provider; \<open>Inl\<close> would be an exception raised to the caller.
\<close>

definition trigger_call ::
  "vapi_service \<Rightarrow> outside \<Rightarrow> string \<Rightarrow> string \<Rightarrow> string
     \<Rightarrow> (exn + vapi_call_result) \<times> http_request list" where
  "trigger_call svc out phone msg reminder_title =
     (case validate_configuration svc of
        Some config_error \<Rightarrow>
          (Inr \<lparr>success = False, call_id = None, error_message = Some config_error\<rparr>, [])
      | None \<Rightarrow>
          (let request = call_request svc phone msg reminder_title
           in (case post out request of
                 Inl e \<Rightarrow> (Inr (handle_exception e), [request])
               | Inr response \<Rightarrow> (Inr (handle_response out response), [request]))))"

section \<open>The scheduler: \<^verbatim>\<open>app/services/scheduler.py\<close>\<close>

text \<open>
  The state that the scheduler reads and writes:
  \<^item> \<open>table\<close>: the committed rows of the table \<^verbatim>\<open>reminders\<close>, in the store's order;
  \<^item> \<open>pending\<close>: the assignments to \<^verbatim>\<open>reminder.status\<close> that the open session has
    not committed yet (row id and new value, oldest first);
  \<^item> \<open>session\<close>: the state of the open session: usable, or left by a commit that
    raised, either while flushing (the transaction is rolled back, the rows are
    expired, and the session is inactive) or at the database's COMMIT;
  \<^item> \<open>open_sessions\<close>: sessions created by \<^verbatim>\<open>_get_db\<close> and not closed yet;
  \<^item> \<open>calls\<close>: the ids of the reminders for which the call trigger was invoked, in
    order (a record of the calls placed, not a variable of the program);
  \<^item> \<open>logged\<close>: the records written to the module's logger;
  \<^item> \<open>sleeps\<close>: the arguments of the \<^verbatim>\<open>asyncio.sleep\<close> calls made by the loop;
  \<^item> \<open>running\<close>, \<open>task\<close>, \<open>check_count\<close>: the attributes \<^verbatim>\<open>_running\<close>,
    \<^verbatim>\<open>_task\<close> and \<^verbatim>\<open>_check_count\<close> (absent until the first empty tick);
  \<^item> \<open>tasks\<close>: the tasks made by \<^verbatim>\<open>asyncio.create_task\<close>; \<open>task\<close> is an index
    into this list.
\<close>

datatype log_level = DEBUG | INFO | WARNING | ERROR | EXCEPTION

datatype task_state = Active | Finished | Cancelled

datatype session_state = Usable | FlushFailed | CommitFailed

record world =
  table :: "reminder list"
  pending :: "(int \<times> reminder_status) list"
  session :: session_state
  open_sessions :: nat
  calls :: "int list"
  logged :: "(log_level \<times> string) list"
  sleeps :: "int list"
  running :: bool
  task :: "nat option"
  tasks :: "task_state list"
  check_count :: "nat option"

text \<open>
  What one tick meets outside the scheduler: the clock, whether the query for due
  reminders raises, what \<^verbatim>\<open>self.vapi_service.trigger_call\<close> does for a reminder
  (raise or return a result), and whether the database makes \<^verbatim>\<open>db.commit()\<close> raise
  at line 103 (\<open>commit_fault\<close>) and at line 110 (\<open>recommit_fault\<close>) while that
  reminder is processed, and then where: in the flush or at COMMIT (the repository
  registers no session event, so nothing of a commit runs before its flush).
  \<open>refusal\<close> is the text of the exception with which a session in a given state
  refuses to be used.
  Writing a log record, \<^verbatim>\<open>db.rollback()\<close> and \<^verbatim>\<open>db.close()\<close> do not raise.
\<close>

datatype commit_failure = FlushFails exn | CommitFails exn

record tick_env =
  now :: int
  query_fault :: "exn option"
  place_call :: "reminder \<Rightarrow> exn + vapi_call_result"
  commit_fault :: "reminder \<Rightarrow> commit_failure option"
  recommit_fault :: "reminder \<Rightarrow> commit_failure option"
  refusal :: "session_state \<Rightarrow> string"

text \<open>The call trigger of the repository as the \<open>place_call\<close> of a tick.\<close>

definition vapi_place_call ::
  "vapi_service \<Rightarrow> (reminder \<Rightarrow> outside) \<Rightarrow> reminder \<Rightarrow> exn + vapi_call_result" where
  "vapi_place_call svc outs r =
     fst (trigger_call svc (outs r) (phone_number r) (message r) (title r))"

definition log_msg :: "log_level \<Rightarrow> string \<Rightarrow> world \<Rightarrow> world" where
  "log_msg lvl m w = w\<lparr>logged := logged w @ [(lvl, m)]\<rparr>"

text \<open>An \<^verbatim>\<open>Optional[str]\<close> inside an f-string.\<close>

definition str_opt :: "string option \<Rightarrow> string" where
  "str_opt x = (case x of None \<Rightarrow> ''None'' | Some s \<Rightarrow> s)"

subsection \<open>The session\<close>

text \<open>
  \<^verbatim>\<open>SessionLocal()\<close> gives a new session, with nothing pending; \<^verbatim>\<open>db.close()\<close> ends
  the session and whatever it had not committed.
\<close>

definition get_db :: "world \<Rightarrow> world" where
  "get_db w = w\<lparr>open_sessions := open_sessions w + 1, pending := [], session := Usable\<rparr>"

definition close :: "world \<Rightarrow> world" where
  "close w = w\<lparr>open_sessions := open_sessions w - 1, pending := [], session := Usable\<rparr>"

text \<open>\<^verbatim>\<open>reminder.status = st\<close>: the object is dirty until the next flush.\<close>

definition set_status :: "reminder \<Rightarrow> reminder_status \<Rightarrow> world \<Rightarrow> world" where
  "set_status r st w = w\<lparr>pending := pending w @ [(rid r, st)]\<rparr>"

definition write_status :: "int \<Rightarrow> reminder_status \<Rightarrow> reminder list \<Rightarrow> reminder list" where
  "write_status i st rows = map (\<lambda>x. if rid x = i then x\<lparr>status := st\<rparr> else x) rows"

fun flush :: "(int \<times> reminder_status) list \<Rightarrow> reminder list \<Rightarrow> reminder list" where
  "flush [] rows = rows"
| "flush ((i, st) # ps) rows = flush ps (write_status i st rows)"

text \<open>
  \<^verbatim>\<open>db.commit()\<close>. A session left by a commit that raised refuses every further
  commit until \<^verbatim>\<open>rollback()\<close>. In a usable session the commit either writes every
  pending assignment to the table, or raises with the table as before and leaves the
  session in the state of the failure. \<^verbatim>\<open>db.rollback()\<close> drops the pending
  assignments and makes the session usable again. The first component of a result is
  the exception raised, if any.
\<close>

definition commit :: "tick_env \<Rightarrow> commit_failure option \<Rightarrow> world \<Rightarrow> exn option \<times> world" where
  "commit env fault w =
     (if session w \<noteq> Usable then (Some (InvalidRequestError (refusal env (session w))), w)
      else case fault of
             None \<Rightarrow> (None, w\<lparr>table := flush (pending w) (table w), pending := []\<rparr>)
           | Some (FlushFails e) \<Rightarrow> (Some e, w\<lparr>session := FlushFailed\<rparr>)
           | Some (CommitFails e) \<Rightarrow> (Some e, w\<lparr>session := CommitFailed\<rparr>))"

definition rollback :: "world \<Rightarrow> world" where
  "rollback w = w\<lparr>pending := [], session := Usable\<rparr>"

text \<open>
  Reading \<^verbatim>\<open>reminder.id\<close>, \<^verbatim>\<open>reminder.title\<close> or \<^verbatim>\<open>reminder.phone_number\<close> to format a
  log record. After a failed flush the row is expired and the session is inactive:
  the read has to load the row again, and the session raises instead. The result is
  the exception raised, if any.
\<close>

definition read_row :: "tick_env \<Rightarrow> world \<Rightarrow> exn option" where
  "read_row env w =
     (if session w = FlushFailed then Some (InvalidRequestError (refusal env FlushFailed))
      else None)"

subsection \<open>\<^verbatim>\<open>_get_due_reminders\<close>\<close>

definition is_due :: "int \<Rightarrow> reminder \<Rightarrow> bool" where
  "is_due t r \<longleftrightarrow> status r = scheduled \<and> trigger_at r \<le> t"

definition get_due_reminders :: "tick_env \<Rightarrow> world \<Rightarrow> exn + reminder list" where
  "get_due_reminders env w =
     (case query_fault env of
        Some e \<Rightarrow> Inl e
      | None \<Rightarrow> Inr (filter (is_due (now env)) (table w)))"

subsection \<open>\<^verbatim>\<open>_process_reminder\<close>\<close>

text \<open>The body of the \<^verbatim>\<open>try\<close> (lines 82 to 103).\<close>

definition process_try :: "tick_env \<Rightarrow> reminder \<Rightarrow> world \<Rightarrow> exn option \<times> world" where
  "process_try env r w =
     (let w1 = w\<lparr>calls := calls w @ [rid r]\<rparr>
      in case place_call env r of
           Inl e \<Rightarrow> (Some e, w1)
         | Inr result \<Rightarrow>
             commit env (commit_fault env r)
               (if success result
                then log_msg INFO
                       (''Reminder '' @ str_int (rid r) @ '' completed successfully. ''
                        @ ''Vapi call ID: '' @ str_opt (call_id result))
                       (set_status r completed w1)
                else log_msg ERROR
                       (''Reminder '' @ str_int (rid r) @ '' failed: ''
                        @ str_opt (error_message result))
                       (set_status r failed w1)))"

text \<open>
  The handler \<^verbatim>\<open>except Exception as e\<close> (lines 105 to 112). The f-string of line 107
  reads \<^verbatim>\<open>reminder.id\<close> outside the inner \<^verbatim>\<open>try\<close>: an exception raised by that read
  leaves \<^verbatim>\<open>_process_reminder\<close>, before anything is logged.
\<close>

definition process_except :: "tick_env \<Rightarrow> reminder \<Rightarrow> exn \<Rightarrow> world \<Rightarrow> exn option \<times> world" where
  "process_except env r e w =
     (case read_row env w of
        Some e1 \<Rightarrow> (Some e1, w)
      | None \<Rightarrow>
          (let w1 = log_msg EXCEPTION
                      (''Error processing reminder '' @ str_int (rid r) @ '': '' @ exn_str e) w
           in case commit env (recommit_fault env r) (set_status r failed w1) of
                (None, w2) \<Rightarrow> (None, w2)
              | (Some e2, w2) \<Rightarrow> (None, rollback w2)))"

text \<open>
  \<^verbatim>\<open>_process_reminder\<close>. The f-string of lines 76 to 79 reads the row outside the
  \<^verbatim>\<open>try\<close>. The first component of the result is the exception that leaves the
  function, if any.
\<close>

definition process_reminder :: "tick_env \<Rightarrow> reminder \<Rightarrow> world \<Rightarrow> exn option \<times> world" where
  "process_reminder env r w =
     (case read_row env w of
        Some e0 \<Rightarrow> (Some e0, w)
      | None \<Rightarrow>
          (case process_try env r
                  (log_msg INFO
                     (''Processing reminder '' @ str_int (rid r) @ '': '' @ [CHR 0x27] @ title r
                      @ [CHR 0x27] @ '' for '' @ phone_number r) w) of
             (None, w1) \<Rightarrow> (None, w1)
           | (Some e, w1) \<Rightarrow> process_except env r e w1))"

subsection \<open>\<^verbatim>\<open>_check_and_process_reminders\<close>\<close>

text \<open>The \<^verbatim>\<open>for\<close> loop of line 127; an exception leaving one call ends the loop.\<close>

fun process_all :: "tick_env \<Rightarrow> reminder list \<Rightarrow> world \<Rightarrow> exn option \<times> world" where
  "process_all env [] w = (None, w)"
| "process_all env (r # rs) w =
     (case process_reminder env r w of
        (Some e, w1) \<Rightarrow> (Some e, w1)
      | (None, w1) \<Rightarrow> process_all env rs w1)"

text \<open>The \<^verbatim>\<open>else\<close> branch of an empty tick (lines 130 to 138).\<close>

definition no_due_reminders :: "world \<Rightarrow> world" where
  "no_due_reminders w =
     (let n = (case check_count w of Some c \<Rightarrow> c + 1 | None \<Rightarrow> 1);
          w1 = (log_msg DEBUG ''No due reminders found'' w)\<lparr>check_count := Some n\<rparr>
      in if n mod 10 = 0
         then log_msg INFO
                (''Scheduler running (check #'' @ str_nat n @ '') - no due reminders'') w1
         else w1)"

definition check_try :: "tick_env \<Rightarrow> world \<Rightarrow> exn option \<times> world" where
  "check_try env w =
     (case get_due_reminders env w of
        Inl e \<Rightarrow> (Some e, w)
      | Inr due_reminders \<Rightarrow>
          (if due_reminders \<noteq> []
           then process_all env due_reminders
                  (log_msg INFO
                     (''Found '' @ str_nat (length due_reminders)
                      @ '' due reminder(s) to process'') w)
           else (None, no_due_reminders w)))"

definition check_and_process_reminders :: "tick_env \<Rightarrow> world \<Rightarrow> exn option \<times> world" where
  "check_and_process_reminders env w =
     (case check_try env (get_db w) of
        (None, w1) \<Rightarrow> (None, close w1)
      | (Some e, w1) \<Rightarrow>
          (None, close (log_msg EXCEPTION
                          (''Error checking for due reminders: '' @ exn_str e) w1)))"

text \<open>Ticks run one after the other, as the loop and the manual trigger run them.\<close>

fun ticks :: "tick_env list \<Rightarrow> world \<Rightarrow> world" where
  "ticks [] w = w"
| "ticks (env # envs) w = ticks envs (snd (check_and_process_reminders env w))"

subsection \<open>\<^verbatim>\<open>_run_loop\<close>\<close>

text \<open>
  One element of the list is one iteration of the \<^verbatim>\<open>while\<close>: the environment of its
  tick, and whether \<^verbatim>\<open>stop()\<close> clears \<^verbatim>\<open>_running\<close> before the condition is tested
  again. The loop may run forever: the result is \<open>None\<close> when the list is used up
  and \<^verbatim>\<open>_running\<close> is still set.
\<close>

definition loop_body :: "int \<Rightarrow> tick_env \<Rightarrow> bool \<Rightarrow> world \<Rightarrow> world" where
  "loop_body interval env stop_requested w =
     (let w1 = (case check_and_process_reminders env w of
                  (None, w') \<Rightarrow> w'
                | (Some e, w') \<Rightarrow>
                    log_msg EXCEPTION (''Scheduler loop error: '' @ exn_str e) w');
          w2 = w1\<lparr>sleeps := sleeps w1 @ [interval]\<rparr>
      in if stop_requested then w2\<lparr>running := False\<rparr> else w2)"

fun loop_iterations :: "int \<Rightarrow> (tick_env \<times> bool) list \<Rightarrow> world \<Rightarrow> world option" where
  "loop_iterations interval [] w = (if running w then None else Some w)"
| "loop_iterations interval ((env, stop_requested) # rest) w =
     (if running w
      then loop_iterations interval rest (loop_body interval env stop_requested w)
      else Some w)"

definition run_loop :: "int \<Rightarrow> (tick_env \<times> bool) list \<Rightarrow> world \<Rightarrow> world option" where
  "run_loop interval iterations w =
     (case loop_iterations interval iterations
             (log_msg INFO
                (''Reminder scheduler started. Checking every '' @ str_int interval
                 @ '' seconds.'') w) of
        None \<Rightarrow> None
      | Some w1 \<Rightarrow> Some (log_msg INFO ''Reminder scheduler stopped.'' w1))"

subsection \<open>\<^verbatim>\<open>start\<close>, \<^verbatim>\<open>stop\<close>, \<^verbatim>\<open>is_running\<close>\<close>

text \<open>The state after \<^verbatim>\<open>ReminderScheduler.__init__\<close>, over a given table.\<close>

definition init :: "reminder list \<Rightarrow> world" where
  "init rows =
     \<lparr>table = rows, pending = [], session = Usable, open_sessions = 0, calls = [],
      logged = [], sleeps = [],
      running = False, task = None, tasks = [], check_count = None\<rparr>"

definition is_running :: "world \<Rightarrow> bool" where
  "is_running w = running w"

definition start :: "world \<Rightarrow> world" where
  "start w =
     (if running w then log_msg WARNING ''Scheduler is already running'' w
      else log_msg INFO ''Reminder scheduler task created''
             (w\<lparr>running := True, task := Some (length (tasks w)),
                tasks := tasks w @ [Active]\<rparr>))"

text \<open>Lines 192 and 193 of \<^verbatim>\<open>stop\<close>: all that runs before the first \<^verbatim>\<open>await\<close>.\<close>

definition stop_signal :: "world \<Rightarrow> world" where
  "stop_signal w = (log_msg INFO ''Stopping reminder scheduler...'' w)\<lparr>running := False\<rparr>"

definition task_state_of :: "world \<Rightarrow> nat \<Rightarrow> task_state option" where
  "task_state_of w h = (if h < length (tasks w) then Some (tasks w ! h) else None)"

text \<open>
  Lines 195 to 206. \<open>exits_within n\<close> tells whether the loop task ends by itself
  within \<open>n\<close> seconds of the signal; \<^verbatim>\<open>asyncio.wait_for\<close> cancels the task when the
  time is over, and the \<^verbatim>\<open>CancelledError\<close> of the second \<^verbatim>\<open>await\<close> is discarded.
  For a task that has finished already \<^verbatim>\<open>wait_for\<close> returns at once. For a task that
  was cancelled already \<^verbatim>\<open>wait_for\<close> raises \<^verbatim>\<open>CancelledError\<close>, which is not a
  \<^verbatim>\<open>TimeoutError\<close>: it leaves \<^verbatim>\<open>stop()\<close> and the handle is kept (that \<^verbatim>\<open>stop()\<close> does
  not return there is not shown by the result). \<open>start\<close> and \<open>stop\<close> called one
  after the other never leave a handle to a task that has ended.
\<close>

definition stop_wait :: "(nat \<Rightarrow> bool) \<Rightarrow> world \<Rightarrow> world" where
  "stop_wait exits_within w =
     (case task w of
        None \<Rightarrow> w
      | Some h \<Rightarrow>
          (case task_state_of w h of
             Some Cancelled \<Rightarrow> w
           | Some Active \<Rightarrow>
               (if exits_within 5 then w\<lparr>tasks := (tasks w)[h := Finished]\<rparr>
                else log_msg WARNING ''Scheduler task did not stop gracefully, cancelling''
                       (w\<lparr>tasks := (tasks w)[h := Cancelled]\<rparr>))
               \<lparr>task := None\<rparr>
           | _ \<Rightarrow> w\<lparr>task := None\<rparr>))"

definition stop :: "(nat \<Rightarrow> bool) \<Rightarrow> world \<Rightarrow> world" where
  "stop exits_within w =
     (if \<not> running w then log_msg WARNING ''Scheduler is not running'' w
      else stop_wait exits_within (stop_signal w))"

section \<open>Summaries used to state the properties\<close>

text \<open>
  These are not functions of the repository; each is shown below to agree with the
  functions above. For one run of \<^verbatim>\<open>_process_reminder\<close> in a usable session, by the
  cases of the environment: \<open>escapes\<close> tells whether an exception leaves the function
  (the call returned and the commit of line 103 failed in its flush), and \<open>outcome\<close> is
  the status left committed for the reminder (\<open>None\<close>: nothing is committed).
  \<open>reached\<close> lists the reminders for which the loop of line 127 calls
  \<^verbatim>\<open>_process_reminder\<close>: it stops after the first one that lets an exception out.
  \<open>settle_by\<close> is the row that the loop over a list of reminders leaves in place of a
  row, and \<open>settle\<close> the row that one tick leaves.
\<close>

definition escapes :: "tick_env \<Rightarrow> reminder \<Rightarrow> bool" where
  "escapes env r \<longleftrightarrow>
     (case place_call env r of
        Inl e \<Rightarrow> False
      | Inr result \<Rightarrow>
          (case commit_fault env r of Some (FlushFails e) \<Rightarrow> True | _ \<Rightarrow> False))"

definition outcome :: "tick_env \<Rightarrow> reminder \<Rightarrow> reminder_status option" where
  "outcome env r =
     (case place_call env r of
        Inl e \<Rightarrow> (case recommit_fault env r of None \<Rightarrow> Some failed | Some f \<Rightarrow> None)
      | Inr result \<Rightarrow>
          (case commit_fault env r of
             None \<Rightarrow> Some (if success result then completed else failed)
           | Some f \<Rightarrow> None))"

fun reached :: "tick_env \<Rightarrow> reminder list \<Rightarrow> reminder list" where
  "reached env [] = []"
| "reached env (d # ds) = d # (if escapes env d then [] else reached env ds)"

definition apply_outcome :: "tick_env \<Rightarrow> reminder \<Rightarrow> reminder list \<Rightarrow> reminder list" where
  "apply_outcome env r rows =
     (case outcome env r of None \<Rightarrow> rows | Some st \<Rightarrow> write_status (rid r) st rows)"

definition settle_by :: "tick_env \<Rightarrow> reminder list \<Rightarrow> reminder \<Rightarrow> reminder" where
  "settle_by env rs x =
     (case find (\<lambda>d. rid d = rid x) rs of
        None \<Rightarrow> x
      | Some d \<Rightarrow> (case outcome env d of None \<Rightarrow> x | Some st \<Rightarrow> x\<lparr>status := st\<rparr>))"

definition settle :: "tick_env \<Rightarrow> reminder list \<Rightarrow> reminder \<Rightarrow> reminder" where
  "settle env rows x = settle_by env (reached env (filter (is_due (now env)) rows)) x"

text \<open>
  The loop tasks that have not ended, and the relation between the attributes of the
  scheduler and the tasks that \<open>start\<close> and \<open>stop\<close> keep: while \<^verbatim>\<open>_task\<close> is set,
  \<^verbatim>\<open>_running\<close> is set and that task is the only one that has not ended; otherwise
  \<^verbatim>\<open>_running\<close> is clear and no task is left.
\<close>

definition active_tasks :: "world \<Rightarrow> task_state list" where
  "active_tasks w = filter (\<lambda>t. t = Active) (tasks w)"

definition lifecycle_inv :: "world \<Rightarrow> bool" where
  "lifecycle_inv w \<longleftrightarrow>
     (case task w of
        Some h \<Rightarrow> running w \<and> h < length (tasks w) \<and> tasks w ! h = Active \<and>
                  length (active_tasks w) = 1
      | None \<Rightarrow> \<not> running w \<and> active_tasks w = [])"

section \<open>Example inputs\<close>

text \<open>Concrete services, provider answers and tables, used where a property is shown at an input.\<close>

definition demo_service :: vapi_service where
  "demo_service = \<lparr>api_url = ''https://api.vapi.ai'', api_key = ''key'', assistant_id = ''asst'', phone_number_id = ''pn''\<rparr>"

definition unset_service :: vapi_service where
  "unset_service = \<lparr>api_url = ''https://api.vapi.ai'', api_key = [], assistant_id = ''asst'', phone_number_id = ''pn''\<rparr>"

definition provider_answers :: "exn + http_response \<Rightarrow> outside" where
  "provider_answers a = \<lparr>post = (\<lambda>_. a), py_str = (\<lambda>_. ''?''), validation_text = (\<lambda>_. ''invalid'')\<rparr>"

definition quoted :: "string \<Rightarrow> string" where
  "quoted s = [CHR 0x22] @ s @ [CHR 0x22]"

definition accepted_202 :: http_response where
  "accepted_202 =
     \<lparr>status_code = 202, body_text = ''{'' @ quoted ''id'' @ '': '' @ quoted ''abc123'' @ ''}'',
      json_body = Inr (JObj [(''id'', JStr ''abc123'')])\<rparr>"

definition created_201 :: http_response where
  "created_201 = \<lparr>status_code = 201, body_text = ''{'' @ quoted ''id'' @ '': '' @ quoted ''abc123'' @ '', '' @ quoted ''status'' @ '': '' @ quoted ''queued'' @ ''}'', json_body = Inr (JObj [(''id'', JStr ''abc123''), (''status'', JStr ''queued'')])\<rparr>"

definition not_found_404 :: http_response where
  "not_found_404 = \<lparr>status_code = 404, body_text = ''{'' @ quoted ''message'' @ '': '' @ quoted ''no such assistant'' @ ''}'', json_body = Inr (JObj [(''message'', JStr ''no such assistant'')])\<rparr>"

text \<open>
  Four reminders: two due at time 1000, one due at time 5000, one completed long ago.
  The environments of a tick: one where every call and every commit succeeds; one where
  the call for reminder 1 raises and its commit fails too, while the provider rejects
  the other calls; one, at time 6000, where the call for reminder 1 raises and the
  commit for reminder 2 fails in its flush; two where the commit for reminder 1 fails
  after a successful call, in its flush or at COMMIT; one where the query for due
  reminders fails.
\<close>

definition pills :: reminder where
  "pills = \<lparr>rid = 1, title = ''Pills'', message = ''Take your pills'',
            phone_number = ''+14155551234'', trigger_at = 700, timezone = ''UTC'',
            status = scheduled, created_at = 0\<rparr>"

definition dentist :: reminder where
  "dentist = \<lparr>rid = 2, title = ''Dentist'', message = ''Appointment at nine'',
              phone_number = ''+14155550000'', trigger_at = 900, timezone = ''Europe/Paris'',
              status = scheduled, created_at = 10\<rparr>"

definition birthday :: reminder where
  "birthday = \<lparr>rid = 3, title = ''Birthday'', message = ''Call your mother'',
               phone_number = ''+14155551234'', trigger_at = 5000, timezone = ''UTC'',
               status = scheduled, created_at = 20\<rparr>"

definition old_call :: reminder where
  "old_call = \<lparr>rid = 4, title = ''Rent'', message = ''Pay the rent'',
               phone_number = ''+14155551234'', trigger_at = 100, timezone = ''UTC'',
               status = completed, created_at = 30\<rparr>"

definition demo_table :: "reminder list" where
  "demo_table = [pills, dentist, birthday, old_call]"

definition answered :: vapi_call_result where
  "answered = \<lparr>success = True, call_id = Some ''abc123'', error_message = None\<rparr>"

definition rejected :: vapi_call_result where
  "rejected = \<lparr>success = False, call_id = None, error_message = Some ''invalid number''\<rparr>"

fun refusal_text :: "session_state \<Rightarrow> string" where
  "refusal_text Usable = []"
| "refusal_text FlushFailed =
     ''The transaction has been rolled back due to a previous exception during flush''"
| "refusal_text CommitFailed = ''The session is in prepared state''"

definition calm_env :: tick_env where
  "calm_env = \<lparr>now = 1000, query_fault = None, place_call = (\<lambda>r. Inr answered),
               commit_fault = (\<lambda>r. None), recommit_fault = (\<lambda>r. None),
               refusal = refusal_text\<rparr>"

definition faulty_env :: tick_env where
  "faulty_env =
     \<lparr>now = 1000, query_fault = None,
      place_call = (\<lambda>r. if rid r = 1 then Inl (OtherException ''boom'') else Inr rejected),
      commit_fault = (\<lambda>r. None),
      recommit_fault =
        (\<lambda>r. if rid r = 1 then Some (FlushFails (OtherException ''database is locked''))
              else None),
      refusal = refusal_text\<rparr>"

definition broken_env :: tick_env where
  "broken_env =
     \<lparr>now = 6000, query_fault = None,
      place_call = (\<lambda>r. if rid r = 1 then Inl (OtherException ''boom'') else Inr answered),
      commit_fault =
        (\<lambda>r. if rid r = 2 then Some (FlushFails (OtherException ''database is locked''))
              else None),
      recommit_fault = (\<lambda>r. None),
      refusal = refusal_text\<rparr>"

definition lost_commit_env :: tick_env where
  "lost_commit_env =
     \<lparr>now = 1000, query_fault = None, place_call = (\<lambda>r. Inr answered),
      commit_fault =
        (\<lambda>r. if rid r = 1 then Some (FlushFails (OtherException ''database is locked''))
              else None),
      recommit_fault = (\<lambda>r. None),
      refusal = refusal_text\<rparr>"

definition late_commit_env :: tick_env where
  "late_commit_env =
     \<lparr>now = 1000, query_fault = None, place_call = (\<lambda>r. Inr answered),
      commit_fault =
        (\<lambda>r. if rid r = 1 then Some (CommitFails (OtherException ''disk full''))
              else None),
      recommit_fault = (\<lambda>r. None),
      refusal = refusal_text\<rparr>"

definition down_env :: tick_env where
  "down_env = \<lparr>now = 1000, query_fault = Some (OtherException ''connection refused''),
               place_call = (\<lambda>r. Inr answered), commit_fault = (\<lambda>r. None),
               recommit_fault = (\<lambda>r. None), refusal = refusal_text\<rparr>"

text \<open>A loop task that never ends by itself, and one that ends as soon as it is asked.\<close>

definition never_exits :: "nat \<Rightarrow> bool" where
  "never_exits n = False"

definition exits_at_once :: "nat \<Rightarrow> bool" where
  "exits_at_once n = True"

section \<open>Properties of the call trigger\<close>

lemma handle_exception_fails [simp]: "\<not> success (handle_exception e)"
  by (cases e) simp_all

lemma handle_exception_message: "\<exists>m. error_message (handle_exception e) = Some m"
  by (cases e) simp_all

lemma api_error_fails [simp]: "\<not> success (api_error out response)"
  by (simp add: api_error_def)

lemma parse_success_iff:
  "success (parse_success out response) \<longleftrightarrow>
     (\<exists>j cr. json_body response = Inr j \<and> validate_call_response j = Some cr \<and>
        call_id (parse_success out response) = Some (resp_id cr))"
  by (auto simp: parse_success_def model_validate_def split: sum.splits option.splits)

lemma parse_success_call_id:
  "json_body response = Inr j \<Longrightarrow> validate_call_response j = Some cr \<Longrightarrow>
   parse_success out response = \<lparr>success = True, call_id = Some (resp_id cr), error_message = None\<rparr>"
  by (simp add: parse_success_def model_validate_def)

lemma handle_response_success_iff:
  "success (handle_response out response) \<longleftrightarrow>
     ((status_code response = 200 \<or> status_code response = 201) \<and>
      (\<exists>j cr. json_body response = Inr j \<and> validate_call_response j = Some cr))"
  using parse_success_iff [of out response]
  by (auto simp: handle_response_def parse_success_call_id)

lemma trigger_call_cases:
  "trigger_call svc out p m t =
     (case validate_configuration svc of
        Some config_error \<Rightarrow>
          (Inr \<lparr>success = False, call_id = None, error_message = Some config_error\<rparr>, [])
      | None \<Rightarrow>
          (case post out (call_request svc p m t) of
             Inl e \<Rightarrow> (Inr (handle_exception e), [call_request svc p m t])
           | Inr response \<Rightarrow> (Inr (handle_response out response), [call_request svc p m t])))"
  by (simp add: trigger_call_def Let_def split: option.split)

lemma trigger_call_success:
  "fst (trigger_call svc out p m t) = Inr r \<Longrightarrow>
   success r \<longleftrightarrow>
     (validate_configuration svc = None \<and>
      (\<exists>resp j cr. post out (call_request svc p m t) = Inr resp \<and>
         (status_code resp = 200 \<or> status_code resp = 201) \<and>
         json_body resp = Inr j \<and> validate_call_response j = Some cr))"
proof (cases "validate_configuration svc")
  case (Some a)
  assume "fst (trigger_call svc out p m t) = Inr r"
  with Some show ?thesis by (auto simp: trigger_call_cases)
next
  case None
  assume r: "fst (trigger_call svc out p m t) = Inr r"
  show ?thesis
  proof (cases "post out (call_request svc p m t)")
    case (Inl e)
    with None r show ?thesis by (auto simp: trigger_call_cases)
  next
    case (Inr response)
    with None r have "r = handle_response out response" by (simp add: trigger_call_cases)
    with None Inr show ?thesis
      by (simp add: handle_response_success_iff)
  qed
qed

lemma provider_message_member:
  "json_body response = Inr (JObj kvs) \<Longrightarrow> dict_get kvs ''message'' = Some (JStr msg) \<Longrightarrow>
   provider_message out response = msg"
  by (simp add: provider_message_def format_value_def)

lemma validate_configuration_None:
  "validate_configuration svc = None \<longleftrightarrow>
     api_key svc \<noteq> [] \<and> assistant_id svc \<noteq> [] \<and> phone_number_id svc \<noteq> []"
  by (simp add: validate_configuration_def)

lemmas vapi_defs =
  trigger_call_def validate_configuration_def call_request_def handle_response_def
  parse_success_def model_validate_def validate_call_response_def dict_get_def
  lookup_field_def opt_str_field_def opt_status_field_def parse_call_status_def
  api_error_def provider_message_def format_value_def str_int_def str_nat.simps
  get_headers_def request_payload_def

lemmas vapi_fixture_defs =
  demo_service_def unset_service_def provider_answers_def quoted_def accepted_202_def
  created_201_def not_found_404_def

text \<open>
  Claim C9. \<^verbatim>\<open>trigger_call\<close> always returns a result and never raises. When the API
  key, the assistant id or the phone number id is empty, the result is not a success,
  its message is the configuration error, and no request has been sent. When the
  configuration is complete and the network call raises (a timeout, a request error or
  any other exception), the result is not a success and carries a message.
\<close>

theorem trigger_call_never_raises:
  "\<exists>r. fst (trigger_call svc out p m t) = Inr r \<and>
     (api_key svc = [] \<or> assistant_id svc = [] \<or> phone_number_id svc = [] \<longrightarrow>
        \<not> success r \<and> error_message r = validate_configuration svc \<and>
        validate_configuration svc \<noteq> None \<and> snd (trigger_call svc out p m t) = []) \<and>
     (\<forall>e. api_key svc \<noteq> [] \<and> assistant_id svc \<noteq> [] \<and> phone_number_id svc \<noteq> [] \<and>
          post out (call_request svc p m t) = Inl e \<longrightarrow>
        \<not> success r \<and> (\<exists>msg. error_message r = Some msg))"
proof (cases "validate_configuration svc")
  case None
  then have ok: "api_key svc \<noteq> [] \<and> assistant_id svc \<noteq> [] \<and> phone_number_id svc \<noteq> []"
    by (simp add: validate_configuration_None)
  show ?thesis
  proof (cases "post out (call_request svc p m t)")
    case (Inl e)
    with None ok show ?thesis
      using handle_exception_message [of e] by (simp add: trigger_call_cases)
  next
    case (Inr response)
    with None ok show ?thesis by (simp add: trigger_call_cases)
  qed
next
  case (Some config_error)
  then show ?thesis
    by (auto simp: trigger_call_cases validate_configuration_None)
qed

theorem trigger_call_never_raises_witness:
  "(\<exists>r. fst (trigger_call unset_service (provider_answers (Inr created_201)) ''+14155551234'' ''m'' ''t'') = Inr r \<and>
        \<not> success r \<and> error_message r = Some ''Vapi API key is not configured'') \<and>
   snd (trigger_call unset_service (provider_answers (Inr created_201)) ''+14155551234'' ''m'' ''t'') = [] \<and>
   (\<exists>r. fst (trigger_call demo_service (provider_answers (Inl (TimeoutException ''ReadTimeout''))) ''+14155551234'' ''m'' ''t'') = Inr r \<and>
        \<not> success r \<and> error_message r \<noteq> None)"
  using trigger_call_never_raises [of unset_service "provider_answers (Inr created_201)" "''+14155551234''" "''m''" "''t''"]
    trigger_call_never_raises [of demo_service "provider_answers (Inl (TimeoutException ''ReadTimeout''))" "''+14155551234''" "''m''" "''t''"]
  by (auto simp: unset_service_def demo_service_def provider_answers_def validate_configuration_def)

text \<open>
  Claim C8, as stated, at a response with status 202 whose body is a valid call
  response: the status is a 2xx status and the payload is accepted by
  \<^verbatim>\<open>VapiCallResponse\<close>, and yet the result is not a success.
\<close>

theorem trigger_call_2xx_counterexample:
  "200 \<le> status_code accepted_202 \<and> status_code accepted_202 < 300 \<and>
   json_body accepted_202 = Inr (JObj [(''id'', JStr ''abc123'')]) \<and>
   validate_call_response (JObj [(''id'', JStr ''abc123'')]) \<noteq> None \<and>
   fst (trigger_call demo_service (provider_answers (Inr accepted_202))
          ''+14155551234'' ''Take your pills'' ''Pills'') =
     Inr \<lparr>success = False, call_id = None,
          error_message = Some (''Vapi API error (202): '' @ body_text accepted_202)\<rparr>"
  by (simp add: vapi_defs vapi_fixture_defs)

text \<open>
  Claim C8, amended. \<^verbatim>\<open>trigger_call\<close> returns a success exactly when the
  configuration is complete, the provider answers with status 200 or 201 and the body
  decodes to a valid call response; the result is then the success that carries the id
  of that response and no message. Every other status (the other 2xx
  statuses too) gives a result that is not a success, whose message holds the status
  and the provider's message: the member \<^verbatim>\<open>message\<close> of the body when it has one. A
  body that does not decode to a valid call response, on status 200 or 201, gives a
  result that is not a success.
\<close>

theorem trigger_call_success_iff:
  "fst (trigger_call svc out p m t) = Inr r \<Longrightarrow>
   (success r \<longleftrightarrow>
      validate_configuration svc = None \<and>
      (\<exists>resp j cr. post out (call_request svc p m t) = Inr resp \<and>
         (status_code resp = 200 \<or> status_code resp = 201) \<and>
         json_body resp = Inr j \<and> validate_call_response j = Some cr)) \<and>
   (\<forall>resp j cr. validate_configuration svc = None \<and>
        post out (call_request svc p m t) = Inr resp \<and>
        (status_code resp = 200 \<or> status_code resp = 201) \<and>
        json_body resp = Inr j \<and> validate_call_response j = Some cr \<longrightarrow>
      r = \<lparr>success = True, call_id = Some (resp_id cr), error_message = None\<rparr>) \<and>
   (\<forall>resp. validate_configuration svc = None \<and> post out (call_request svc p m t) = Inr resp \<and>
        status_code resp \<noteq> 200 \<and> status_code resp \<noteq> 201 \<longrightarrow>
      \<not> success r \<and>
      error_message r =
        Some (''Vapi API error ('' @ str_int (status_code resp) @ ''): '' @ provider_message out resp) \<and>
      (\<forall>kvs msg. json_body resp = Inr (JObj kvs) \<and> dict_get kvs ''message'' = Some (JStr msg) \<longrightarrow>
         provider_message out resp = msg)) \<and>
   (\<forall>resp. validate_configuration svc = None \<and> post out (call_request svc p m t) = Inr resp \<and>
        (status_code resp = 200 \<or> status_code resp = 201) \<and>
        (\<forall>j. json_body resp = Inr j \<longrightarrow> validate_call_response j = None) \<longrightarrow>
      \<not> success r \<and> (\<exists>msg. error_message r = Some msg))"
proof (intro conjI allI impI)
  assume r: "fst (trigger_call svc out p m t) = Inr r"
  then show "success r \<longleftrightarrow>
      validate_configuration svc = None \<and>
      (\<exists>resp j cr. post out (call_request svc p m t) = Inr resp \<and>
         (status_code resp = 200 \<or> status_code resp = 201) \<and>
         json_body resp = Inr j \<and> validate_call_response j = Some cr)"
    by (rule trigger_call_success)
next
  fix resp j cr
  assume r: "fst (trigger_call svc out p m t) = Inr r"
    and h: "validate_configuration svc = None \<and>
        post out (call_request svc p m t) = Inr resp \<and>
        (status_code resp = 200 \<or> status_code resp = 201) \<and>
        json_body resp = Inr j \<and> validate_call_response j = Some cr"
  then have "r = parse_success out resp"
    by (auto simp: trigger_call_cases handle_response_def)
  with h show "r = \<lparr>success = True, call_id = Some (resp_id cr), error_message = None\<rparr>"
    by (simp add: parse_success_call_id)
next
  fix resp
  assume r: "fst (trigger_call svc out p m t) = Inr r"
    and h: "validate_configuration svc = None \<and> post out (call_request svc p m t) = Inr resp \<and>
        status_code resp \<noteq> 200 \<and> status_code resp \<noteq> 201"
  then have "r = api_error out resp"
    by (simp add: trigger_call_cases handle_response_def)
  then show "\<not> success r"
    and "error_message r =
        Some (''Vapi API error ('' @ str_int (status_code resp) @ ''): '' @ provider_message out resp)"
    by (simp_all add: api_error_def)
next
  fix resp :: http_response and kvs msg
  assume "json_body resp = Inr (JObj kvs) \<and> dict_get kvs ''message'' = Some (JStr msg)"
  then show "provider_message out resp = msg"
    by (simp add: provider_message_member)
next
  fix resp
  assume r: "fst (trigger_call svc out p m t) = Inr r"
    and h: "validate_configuration svc = None \<and> post out (call_request svc p m t) = Inr resp \<and>
        (status_code resp = 200 \<or> status_code resp = 201) \<and>
        (\<forall>j. json_body resp = Inr j \<longrightarrow> validate_call_response j = None)"
  then have "r = parse_success out resp"
    by (auto simp: trigger_call_cases handle_response_def)
  with h show "\<not> success r" and "\<exists>msg. error_message r = Some msg"
    by (auto simp: parse_success_def model_validate_def split: sum.splits option.splits)
qed

theorem trigger_call_success_iff_witness:
  "fst (trigger_call demo_service (provider_answers (Inr created_201))
          ''+14155551234'' ''Take your pills'' ''Pills'') =
     Inr \<lparr>success = True, call_id = Some ''abc123'', error_message = None\<rparr> \<and>
   fst (trigger_call demo_service (provider_answers (Inr not_found_404))
          ''+14155551234'' ''Take your pills'' ''Pills'') =
     Inr \<lparr>success = False, call_id = None,
          error_message = Some ''Vapi API error (404): no such assistant''\<rparr> \<and>
   provider_message (provider_answers (Inr not_found_404)) not_found_404 = ''no such assistant''"
proof -
  have a: "fst (trigger_call demo_service (provider_answers (Inr created_201))
          ''+14155551234'' ''Take your pills'' ''Pills'') =
     Inr \<lparr>success = True, call_id = Some ''abc123'', error_message = None\<rparr>"
    by (simp add: vapi_defs vapi_fixture_defs)
  have b: "fst (trigger_call demo_service (provider_answers (Inr not_found_404))
          ''+14155551234'' ''Take your pills'' ''Pills'') =
     Inr \<lparr>success = False, call_id = None,
          error_message = Some ''Vapi API error (404): no such assistant''\<rparr>"
    by (simp add: vapi_defs vapi_fixture_defs)
  show ?thesis
    using a b trigger_call_success_iff [OF a] trigger_call_success_iff [OF b]
    by (simp add: vapi_defs vapi_fixture_defs)
qed

section \<open>Properties of the scheduler\<close>

subsection \<open>Auxiliary facts\<close>

lemma write_status_twice [simp]:
  "write_status i s2 (write_status i s1 rows) = write_status i s2 rows"
  by (induction rows) (simp_all add: write_status_def)

lemma map_rid_write_status [simp]: "map rid (write_status i st rows) = map rid rows"
  by (induction rows) (simp_all add: write_status_def)

lemma log_msg_fields [simp]:
  "table (log_msg l m w) = table w" "pending (log_msg l m w) = pending w"
  "session (log_msg l m w) = session w"
  "open_sessions (log_msg l m w) = open_sessions w" "calls (log_msg l m w) = calls w"
  "sleeps (log_msg l m w) = sleeps w" "running (log_msg l m w) = running w"
  "task (log_msg l m w) = task w" "tasks (log_msg l m w) = tasks w"
  "check_count (log_msg l m w) = check_count w"
  "logged (log_msg l m w) = logged w @ [(l, m)]"
  by (simp_all add: log_msg_def)

lemma set_status_fields [simp]:
  "table (set_status r st w) = table w" "pending (set_status r st w) = pending w @ [(rid r, st)]"
  "session (set_status r st w) = session w"
  "open_sessions (set_status r st w) = open_sessions w" "calls (set_status r st w) = calls w"
  "sleeps (set_status r st w) = sleeps w" "running (set_status r st w) = running w"
  "task (set_status r st w) = task w" "tasks (set_status r st w) = tasks w"
  "check_count (set_status r st w) = check_count w"
  "logged (set_status r st w) = logged w"
  by (simp_all add: set_status_def)

lemma commit_ok:
  "session w = Usable \<Longrightarrow>
   commit env None w = (None, w\<lparr>table := flush (pending w) (table w), pending := []\<rparr>)"
  by (simp add: commit_def)

lemma commit_flush_fails:
  "session w = Usable \<Longrightarrow>
   commit env (Some (FlushFails e)) w = (Some e, w\<lparr>session := FlushFailed\<rparr>)"
  by (simp add: commit_def)

lemma commit_commit_fails:
  "session w = Usable \<Longrightarrow>
   commit env (Some (CommitFails e)) w = (Some e, w\<lparr>session := CommitFailed\<rparr>)"
  by (simp add: commit_def)

lemma commit_refused:
  "session w \<noteq> Usable \<Longrightarrow>
   commit env fault w = (Some (InvalidRequestError (refusal env (session w))), w)"
  by (simp add: commit_def)

lemma commit_frame:
  "open_sessions (snd (commit env fault w)) = open_sessions w"
  "calls (snd (commit env fault w)) = calls w"
  "logged (snd (commit env fault w)) = logged w"
  "sleeps (snd (commit env fault w)) = sleeps w"
  "running (snd (commit env fault w)) = running w"
  "task (snd (commit env fault w)) = task w"
  "tasks (snd (commit env fault w)) = tasks w"
  "check_count (snd (commit env fault w)) = check_count w"
  by (simp_all add: commit_def split: option.split commit_failure.split)

text \<open>The handler, entered with a usable session: only the call trigger has raised.\<close>

lemma process_except_usable:
  assumes "session w = Usable"
  shows "process_except env r e w =
           (None,
            case recommit_fault env r of
              None \<Rightarrow>
                (log_msg EXCEPTION
                   (''Error processing reminder '' @ str_int (rid r) @ '': '' @ exn_str e) w)
                \<lparr>table := flush (pending w @ [(rid r, failed)]) (table w), pending := []\<rparr>
            | Some f \<Rightarrow>
                (log_msg EXCEPTION
                   (''Error processing reminder '' @ str_int (rid r) @ '': '' @ exn_str e) w)
                \<lparr>pending := [], session := Usable\<rparr>)"
proof (cases "recommit_fault env r")
  case None
  with assms show ?thesis
    by (simp add: process_except_def read_row_def commit_def Let_def)
next
  case (Some f)
  with assms show ?thesis
    by (cases f)
       (simp_all add: process_except_def read_row_def commit_def rollback_def Let_def
          set_status_def log_msg_def)
qed

text \<open>The handler, entered after the commit of line 103 failed at COMMIT.\<close>

lemma process_except_commit_failed:
  assumes "session w = CommitFailed"
  shows "process_except env r e w =
           (None,
            (log_msg EXCEPTION
               (''Error processing reminder '' @ str_int (rid r) @ '': '' @ exn_str e) w)
            \<lparr>pending := [], session := Usable\<rparr>)"
  using assms
  by (simp add: process_except_def read_row_def commit_def rollback_def Let_def
      set_status_def log_msg_def)

text \<open>The handler, entered after the commit of line 103 failed in its flush.\<close>

lemma process_except_flush_failed:
  assumes "session w = FlushFailed"
  shows "process_except env r e w = (Some (InvalidRequestError (refusal env FlushFailed)), w)"
  using assms by (simp add: process_except_def read_row_def)

lemma flush_append: "flush (ps @ qs) rows = flush qs (flush ps rows)"
  by (induction ps rows rule: flush.induct) simp_all

lemma flush_snoc [simp]: "flush (ps @ [(i, st)]) rows = write_status i st (flush ps rows)"
  by (simp add: flush_append)

lemma map_rid_flush [simp]: "map rid (flush ps rows) = map rid rows"
  by (induction ps rows rule: flush.induct) simp_all

lemma process_try_raised:
  "place_call env r = Inl e \<Longrightarrow> process_try env r w = (Some e, w\<lparr>calls := calls w @ [rid r]\<rparr>)"
  by (simp add: process_try_def Let_def)

lemma process_try_fields:
  "calls (snd (process_try env r w)) = calls w @ [rid r]"
  "open_sessions (snd (process_try env r w)) = open_sessions w"
  "running (snd (process_try env r w)) = running w"
  "task (snd (process_try env r w)) = task w"
  "tasks (snd (process_try env r w)) = tasks w"
  "sleeps (snd (process_try env r w)) = sleeps w"
  "check_count (snd (process_try env r w)) = check_count w"
  by (simp_all add: process_try_def Let_def commit_frame split: sum.split)

lemma process_try_committed:
  assumes "session w = Usable" and "place_call env r = Inr result" and "commit_fault env r = None"
  shows "fst (process_try env r w) = None"
    and "table (snd (process_try env r w)) =
           write_status (rid r) (if success result then completed else failed)
             (flush (pending w) (table w))"
    and "pending (snd (process_try env r w)) = []"
    and "session (snd (process_try env r w)) = Usable"
    and "logged (snd (process_try env r w)) =
           logged w @
           [if success result
            then (INFO, ''Reminder '' @ str_int (rid r) @ '' completed successfully. ''
                        @ ''Vapi call ID: '' @ str_opt (call_id result))
            else (ERROR, ''Reminder '' @ str_int (rid r) @ '' failed: ''
                         @ str_opt (error_message result))]"
  using assms by (simp_all add: process_try_def Let_def commit_def)

lemma process_try_failed:
  assumes "session w = Usable" and "place_call env r = Inr result"
    and "commit_fault env r = Some f"
  shows "fst (process_try env r w) = Some (case f of FlushFails e \<Rightarrow> e | CommitFails e \<Rightarrow> e)"
    and "table (snd (process_try env r w)) = table w"
    and "session (snd (process_try env r w)) =
           (case f of FlushFails e \<Rightarrow> FlushFailed | CommitFails e \<Rightarrow> CommitFailed)"
    and "logged (snd (process_try env r w)) =
           logged w @
           [if success result
            then (INFO, ''Reminder '' @ str_int (rid r) @ '' completed successfully. ''
                        @ ''Vapi call ID: '' @ str_opt (call_id result))
            else (ERROR, ''Reminder '' @ str_int (rid r) @ '' failed: ''
                         @ str_opt (error_message result))]"
  using assms by (cases f; simp add: process_try_def Let_def commit_def)+

lemma process_reminder_usable:
  "session w = Usable \<Longrightarrow>
   process_reminder env r w =
     (case process_try env r
             (log_msg INFO
                (''Processing reminder '' @ str_int (rid r) @ '': '' @ [CHR 0x27] @ title r
                 @ [CHR 0x27] @ '' for '' @ phone_number r) w) of
        (None, w1) \<Rightarrow> (None, w1)
      | (Some e, w1) \<Rightarrow> process_except env r e w1)"
  by (simp add: process_reminder_def read_row_def)

lemma process_reminder_unusable:
  "session w = FlushFailed \<Longrightarrow>
   process_reminder env r w = (Some (InvalidRequestError (refusal env FlushFailed)), w)"
  by (simp add: process_reminder_def read_row_def)

lemma process_reminder_raised:
  assumes "session w = Usable" and "place_call env r = Inl e"
  shows "fst (process_reminder env r w) = None"
    and "table (snd (process_reminder env r w)) =
           (case recommit_fault env r of
              None \<Rightarrow> write_status (rid r) failed (flush (pending w) (table w))
            | Some f \<Rightarrow> table w)"
    and "pending (snd (process_reminder env r w)) = []"
    and "session (snd (process_reminder env r w)) = Usable"
    and "logged (snd (process_reminder env r w)) =
           logged w @
           [(INFO, ''Processing reminder '' @ str_int (rid r) @ '': '' @ [CHR 0x27] @ title r
                   @ [CHR 0x27] @ '' for '' @ phone_number r),
            (EXCEPTION, ''Error processing reminder '' @ str_int (rid r) @ '': '' @ exn_str e)]"
proof -
  let ?w0 = "(log_msg INFO
                (''Processing reminder '' @ str_int (rid r) @ '': '' @ [CHR 0x27] @ title r
                 @ [CHR 0x27] @ '' for '' @ phone_number r) w)"
  let ?w1 = "?w0\<lparr>calls := calls ?w0 @ [rid r]\<rparr>"
  have u: "session ?w1 = Usable" using assms(1) by simp
  have "process_reminder env r w = process_except env r e ?w1"
    using assms by (simp add: process_reminder_usable process_try_raised)
  then have eq: "process_reminder env r w =
      (None,
       case recommit_fault env r of
         None \<Rightarrow>
           (log_msg EXCEPTION
              (''Error processing reminder '' @ str_int (rid r) @ '': '' @ exn_str e) ?w1)
           \<lparr>table := flush (pending ?w1 @ [(rid r, failed)]) (table ?w1), pending := []\<rparr>
       | Some f \<Rightarrow>
           (log_msg EXCEPTION
              (''Error processing reminder '' @ str_int (rid r) @ '': '' @ exn_str e) ?w1)
           \<lparr>pending := [], session := Usable\<rparr>)"
    using process_except_usable [OF u, of env r e] by simp
  show "fst (process_reminder env r w) = None" using eq by simp
  show "table (snd (process_reminder env r w)) =
           (case recommit_fault env r of
              None \<Rightarrow> write_status (rid r) failed (flush (pending w) (table w))
            | Some f \<Rightarrow> table w)"
    using eq by (simp split: option.split)
  show "pending (snd (process_reminder env r w)) = []"
    using eq by (simp split: option.split)
  show "session (snd (process_reminder env r w)) = Usable"
    using eq assms(1) by (simp split: option.split)
  show "logged (snd (process_reminder env r w)) =
           logged w @
           [(INFO, ''Processing reminder '' @ str_int (rid r) @ '': '' @ [CHR 0x27] @ title r
                   @ [CHR 0x27] @ '' for '' @ phone_number r),
            (EXCEPTION, ''Error processing reminder '' @ str_int (rid r) @ '': '' @ exn_str e)]"
    using eq by (simp split: option.split)
qed

lemma process_reminder_committed:
  assumes "session w = Usable" and "place_call env r = Inr result" and "commit_fault env r = None"
  shows "fst (process_reminder env r w) = None"
    and "table (snd (process_reminder env r w)) =
           write_status (rid r) (if success result then completed else failed)
             (flush (pending w) (table w))"
    and "pending (snd (process_reminder env r w)) = []"
    and "session (snd (process_reminder env r w)) = Usable"
    and "logged (snd (process_reminder env r w)) = logged w @ [(INFO, ''Processing reminder '' @ str_int (rid r) @ '': '' @ [CHR 0x27] @ title r
                   @ [CHR 0x27] @ '' for '' @ phone_number r), (if success result
             then (INFO, ''Reminder '' @ str_int (rid r) @ '' completed successfully. ''
                         @ ''Vapi call ID: '' @ str_opt (call_id result))
             else (ERROR, ''Reminder '' @ str_int (rid r) @ '' failed: ''
                          @ str_opt (error_message result)))]"
proof -
  let ?w0 = "(log_msg INFO
                (''Processing reminder '' @ str_int (rid r) @ '': '' @ [CHR 0x27] @ title r
                 @ [CHR 0x27] @ '' for '' @ phone_number r) w)"
  have u: "session ?w0 = Usable" using assms(1) by simp
  note t = process_try_committed [OF u assms(2,3)]
  have eq: "process_reminder env r w = (None, snd (process_try env r ?w0))"
    using t(1) assms(1) by (cases "process_try env r ?w0") (simp add: process_reminder_usable)
  show "fst (process_reminder env r w) = None" using eq by simp
  show "table (snd (process_reminder env r w)) =
           write_status (rid r) (if success result then completed else failed)
             (flush (pending w) (table w))"
    using eq t(2) by simp
  show "pending (snd (process_reminder env r w)) = []" using eq t(3) by simp
  show "session (snd (process_reminder env r w)) = Usable" using eq t(4) by simp
  show "logged (snd (process_reminder env r w)) = logged w @ [(INFO, ''Processing reminder '' @ str_int (rid r) @ '': '' @ [CHR 0x27] @ title r
                   @ [CHR 0x27] @ '' for '' @ phone_number r), (if success result
             then (INFO, ''Reminder '' @ str_int (rid r) @ '' completed successfully. ''
                         @ ''Vapi call ID: '' @ str_opt (call_id result))
             else (ERROR, ''Reminder '' @ str_int (rid r) @ '' failed: ''
                          @ str_opt (error_message result)))]"
    using eq t(5) by simp
qed

lemma process_reminder_flush_failed:
  assumes "session w = Usable" and "place_call env r = Inr result"
    and "commit_fault env r = Some (FlushFails e)"
  shows "fst (process_reminder env r w) = Some (InvalidRequestError (refusal env FlushFailed))"
    and "table (snd (process_reminder env r w)) = table w"
    and "logged (snd (process_reminder env r w)) = logged w @ [(INFO, ''Processing reminder '' @ str_int (rid r) @ '': '' @ [CHR 0x27] @ title r
                   @ [CHR 0x27] @ '' for '' @ phone_number r), (if success result
             then (INFO, ''Reminder '' @ str_int (rid r) @ '' completed successfully. ''
                         @ ''Vapi call ID: '' @ str_opt (call_id result))
             else (ERROR, ''Reminder '' @ str_int (rid r) @ '' failed: ''
                          @ str_opt (error_message result)))]"
proof -
  let ?w0 = "(log_msg INFO
                (''Processing reminder '' @ str_int (rid r) @ '': '' @ [CHR 0x27] @ title r
                 @ [CHR 0x27] @ '' for '' @ phone_number r) w)"
  have u: "session ?w0 = Usable" using assms(1) by simp
  note t = process_try_failed [OF u assms(2,3)]
  have s: "session (snd (process_try env r ?w0)) = FlushFailed" using t(3) by simp
  have "process_reminder env r w = process_except env r e (snd (process_try env r ?w0))"
    using t(1) assms(1) by (cases "process_try env r ?w0") (simp add: process_reminder_usable)
  then have eq: "process_reminder env r w =
      (Some (InvalidRequestError (refusal env FlushFailed)), snd (process_try env r ?w0))"
    using process_except_flush_failed [OF s] by simp
  show "fst (process_reminder env r w) = Some (InvalidRequestError (refusal env FlushFailed))"
    using eq by simp
  show "table (snd (process_reminder env r w)) = table w" using eq t(2) by simp
  show "logged (snd (process_reminder env r w)) = logged w @ [(INFO, ''Processing reminder '' @ str_int (rid r) @ '': '' @ [CHR 0x27] @ title r
                   @ [CHR 0x27] @ '' for '' @ phone_number r), (if success result
             then (INFO, ''Reminder '' @ str_int (rid r) @ '' completed successfully. ''
                         @ ''Vapi call ID: '' @ str_opt (call_id result))
             else (ERROR, ''Reminder '' @ str_int (rid r) @ '' failed: ''
                          @ str_opt (error_message result)))]"
    using eq t(4) by simp
qed

lemma process_reminder_commit_failed:
  assumes "session w = Usable" and "place_call env r = Inr result"
    and "commit_fault env r = Some (CommitFails e)"
  shows "fst (process_reminder env r w) = None"
    and "table (snd (process_reminder env r w)) = table w"
    and "pending (snd (process_reminder env r w)) = []"
    and "session (snd (process_reminder env r w)) = Usable"
    and "logged (snd (process_reminder env r w)) =
           logged w @
           [(INFO, ''Processing reminder '' @ str_int (rid r) @ '': '' @ [CHR 0x27] @ title r
                   @ [CHR 0x27] @ '' for '' @ phone_number r), (if success result
             then (INFO, ''Reminder '' @ str_int (rid r) @ '' completed successfully. ''
                         @ ''Vapi call ID: '' @ str_opt (call_id result))
             else (ERROR, ''Reminder '' @ str_int (rid r) @ '' failed: ''
                          @ str_opt (error_message result))),
            (EXCEPTION, ''Error processing reminder '' @ str_int (rid r) @ '': '' @ exn_str e)]"
proof -
  let ?w0 = "(log_msg INFO
                (''Processing reminder '' @ str_int (rid r) @ '': '' @ [CHR 0x27] @ title r
                 @ [CHR 0x27] @ '' for '' @ phone_number r) w)"
  let ?w1 = "snd (process_try env r ?w0)"
  have u: "session ?w0 = Usable" using assms(1) by simp
  note t = process_try_failed [OF u assms(2,3)]
  have s: "session ?w1 = CommitFailed" using t(3) by simp
  have "process_reminder env r w = process_except env r e ?w1"
    using t(1) assms(1) by (cases "process_try env r ?w0") (simp add: process_reminder_usable)
  then have eq: "process_reminder env r w =
      (None,
       (log_msg EXCEPTION
          (''Error processing reminder '' @ str_int (rid r) @ '': '' @ exn_str e) ?w1)
       \<lparr>pending := [], session := Usable\<rparr>)"
    using process_except_commit_failed [OF s] by simp
  show "fst (process_reminder env r w) = None" using eq by simp
  show "table (snd (process_reminder env r w)) = table w" using eq t(2) by simp
  show "pending (snd (process_reminder env r w)) = []" using eq by simp
  show "session (snd (process_reminder env r w)) = Usable" using eq by simp
  show "logged (snd (process_reminder env r w)) =
           logged w @
           [(INFO, ''Processing reminder '' @ str_int (rid r) @ '': '' @ [CHR 0x27] @ title r
                   @ [CHR 0x27] @ '' for '' @ phone_number r), (if success result
             then (INFO, ''Reminder '' @ str_int (rid r) @ '' completed successfully. ''
                         @ ''Vapi call ID: '' @ str_opt (call_id result))
             else (ERROR, ''Reminder '' @ str_int (rid r) @ '' failed: ''
                          @ str_opt (error_message result))),
            (EXCEPTION, ''Error processing reminder '' @ str_int (rid r) @ '': '' @ exn_str e)]"
    using eq t(4) by simp
qed

lemma process_except_frame:
  "calls (snd (process_except env r e w)) = calls w"
  "open_sessions (snd (process_except env r e w)) = open_sessions w"
  "running (snd (process_except env r e w)) = running w"
  "task (snd (process_except env r e w)) = task w"
  "tasks (snd (process_except env r e w)) = tasks w"
  "sleeps (snd (process_except env r e w)) = sleeps w"
  "check_count (snd (process_except env r e w)) = check_count w"
proof -
  let ?w1 = "set_status r failed
               (log_msg EXCEPTION
                  (''Error processing reminder '' @ str_int (rid r) @ '': '' @ exn_str e) w)"
  note f = commit_frame [of env "recommit_fault env r" ?w1]
  show "calls (snd (process_except env r e w)) = calls w"
    "open_sessions (snd (process_except env r e w)) = open_sessions w"
    "running (snd (process_except env r e w)) = running w"
    "task (snd (process_except env r e w)) = task w"
    "tasks (snd (process_except env r e w)) = tasks w"
    "sleeps (snd (process_except env r e w)) = sleeps w"
    "check_count (snd (process_except env r e w)) = check_count w"
    using f
    by (cases "read_row env w"; cases "commit env (recommit_fault env r) ?w1";
        cases "fst (commit env (recommit_fault env r) ?w1)";
        simp add: process_except_def Let_def rollback_def)+
qed

lemma process_reminder_frame:
  "open_sessions (snd (process_reminder env r w)) = open_sessions w"
  "running (snd (process_reminder env r w)) = running w"
  "task (snd (process_reminder env r w)) = task w"
  "tasks (snd (process_reminder env r w)) = tasks w"
  "sleeps (snd (process_reminder env r w)) = sleeps w"
  "check_count (snd (process_reminder env r w)) = check_count w"
proof -
  let ?w0 = "log_msg INFO
                (''Processing reminder '' @ str_int (rid r) @ '': '' @ [CHR 0x27] @ title r
                 @ [CHR 0x27] @ '' for '' @ phone_number r) w"
  note t = process_try_fields [of env r ?w0]
  show "open_sessions (snd (process_reminder env r w)) = open_sessions w"
    "running (snd (process_reminder env r w)) = running w"
    "task (snd (process_reminder env r w)) = task w"
    "tasks (snd (process_reminder env r w)) = tasks w"
    "sleeps (snd (process_reminder env r w)) = sleeps w"
    "check_count (snd (process_reminder env r w)) = check_count w"
    using t
    by (cases "read_row env w"; cases "process_try env r ?w0";
        cases "fst (process_try env r ?w0)";
        simp add: process_reminder_def process_except_frame)+
qed

lemma process_reminder_calls:
  assumes "session w = Usable"
  shows "calls (snd (process_reminder env r w)) = calls w @ [rid r]"
proof -
  let ?w0 = "log_msg INFO
                (''Processing reminder '' @ str_int (rid r) @ '': '' @ [CHR 0x27] @ title r
                 @ [CHR 0x27] @ '' for '' @ phone_number r) w"
  have "calls (snd (process_try env r ?w0)) = calls w @ [rid r]"
    by (simp add: process_try_fields)
  then show ?thesis using assms
    by (cases "process_try env r ?w0"; cases "fst (process_try env r ?w0)")
       (simp_all add: process_reminder_usable process_except_frame)
qed


lemma process_reminder_fst:
  assumes "session w = Usable"
  shows "fst (process_reminder env r w) =
           (if escapes env r then Some (InvalidRequestError (refusal env FlushFailed)) else None)"
proof (cases "place_call env r")
  case (Inl e)
  then have "\<not> escapes env r" by (simp add: escapes_def)
  with assms Inl show ?thesis by (simp add: process_reminder_raised)
next
  case (Inr result)
  show ?thesis
  proof (cases "commit_fault env r")
    case None
    with Inr have "\<not> escapes env r" by (simp add: escapes_def)
    with assms Inr None show ?thesis by (simp add: process_reminder_committed)
  next
    case (Some f)
    show ?thesis
    proof (cases f)
      case (FlushFails e)
      with Inr Some have "escapes env r" by (simp add: escapes_def)
      with assms Inr Some FlushFails show ?thesis by (simp add: process_reminder_flush_failed)
    next
      case (CommitFails e)
      with Inr Some have "\<not> escapes env r" by (simp add: escapes_def)
      with assms Inr Some CommitFails show ?thesis
        by (simp add: process_reminder_commit_failed)
    qed
  qed
qed

lemma process_reminder_ready:
  assumes "session w = Usable" and "\<not> escapes env r"
  shows "session (snd (process_reminder env r w)) = Usable"
    and "pending (snd (process_reminder env r w)) = []"
proof -
  have "session (snd (process_reminder env r w)) = Usable \<and>
        pending (snd (process_reminder env r w)) = []"
  proof (cases "place_call env r")
    case (Inl e)
    with assms show ?thesis by (simp add: process_reminder_raised)
  next
    case (Inr result)
    show ?thesis
    proof (cases "commit_fault env r")
      case None
      with assms Inr show ?thesis by (simp add: process_reminder_committed)
    next
      case (Some f)
      show ?thesis
      proof (cases f)
        case (FlushFails e)
        with Inr Some assms(2) show ?thesis by (simp add: escapes_def)
      next
        case (CommitFails e)
        with assms Inr Some show ?thesis by (simp add: process_reminder_commit_failed)
      qed
    qed
  qed
  then show "session (snd (process_reminder env r w)) = Usable"
    and "pending (snd (process_reminder env r w)) = []" by simp_all
qed

lemma process_reminder_table:
  assumes "session w = Usable" and "pending w = []"
  shows "table (snd (process_reminder env r w)) = apply_outcome env r (table w)"
proof (cases "place_call env r")
  case (Inl e)
  with assms show ?thesis
    by (simp add: process_reminder_raised apply_outcome_def outcome_def split: option.split)
next
  case (Inr result)
  show ?thesis
  proof (cases "commit_fault env r")
    case None
    with assms Inr show ?thesis
      by (simp add: process_reminder_committed apply_outcome_def outcome_def)
  next
    case (Some f)
    show ?thesis
    proof (cases f)
      case (FlushFails e)
      with assms Inr Some show ?thesis
        by (simp add: process_reminder_flush_failed apply_outcome_def outcome_def)
    next
      case (CommitFails e)
      with assms Inr Some show ?thesis
        by (simp add: process_reminder_commit_failed apply_outcome_def outcome_def)
    qed
  qed
qed

lemma process_all_stops:
  "session w = Usable \<Longrightarrow> escapes env r \<Longrightarrow>
   process_all env (r # rs) w = process_reminder env r w"
  using process_reminder_fst [of w env r]
  by (cases "process_reminder env r w") simp

lemma process_all_goes_on:
  "session w = Usable \<Longrightarrow> \<not> escapes env r \<Longrightarrow>
   process_all env (r # rs) w = process_all env rs (snd (process_reminder env r w))"
  using process_reminder_fst [of w env r]
  by (cases "process_reminder env r w") simp

lemma process_all_calls:
  "session w = Usable \<Longrightarrow>
   calls (snd (process_all env rs w)) = calls w @ map rid (reached env rs)"
proof (induction rs arbitrary: w)
  case Nil
  then show ?case by simp
next
  case (Cons r rs)
  show ?case
  proof (cases "escapes env r")
    case True
    with Cons.prems show ?thesis
      by (simp add: process_all_stops process_reminder_calls del: process_all.simps)
  next
    case False
    with Cons.prems have "session (snd (process_reminder env r w)) = Usable"
      by (simp add: process_reminder_ready)
    with Cons.IH Cons.prems False show ?thesis
      by (simp add: process_all_goes_on process_reminder_calls del: process_all.simps)
  qed
qed

lemma process_all_table:
  "session w = Usable \<Longrightarrow> pending w = [] \<Longrightarrow>
   table (snd (process_all env rs w)) = fold (apply_outcome env) (reached env rs) (table w)"
proof (induction rs arbitrary: w)
  case Nil
  then show ?case by simp
next
  case (Cons r rs)
  show ?case
  proof (cases "escapes env r")
    case True
    with Cons.prems show ?thesis
      by (simp add: process_all_stops process_reminder_table del: process_all.simps)
  next
    case False
    with Cons.prems have "session (snd (process_reminder env r w)) = Usable"
      and "pending (snd (process_reminder env r w)) = []"
      by (simp_all add: process_reminder_ready)
    with Cons.IH Cons.prems False show ?thesis
      by (simp add: process_all_goes_on process_reminder_table del: process_all.simps)
  qed
qed

lemma process_all_fst:
  "session w = Usable \<Longrightarrow>
   fst (process_all env rs w) =
     (if \<exists>d \<in> set rs. escapes env d
      then Some (InvalidRequestError (refusal env FlushFailed)) else None)"
proof (induction rs arbitrary: w)
  case Nil
  then show ?case by simp
next
  case (Cons r rs)
  show ?case
  proof (cases "escapes env r")
    case True
    with Cons.prems show ?thesis
      by (simp add: process_all_stops process_reminder_fst del: process_all.simps)
  next
    case False
    with Cons.prems have "session (snd (process_reminder env r w)) = Usable"
      by (simp add: process_reminder_ready)
    with Cons.IH Cons.prems False show ?thesis
      by (simp add: process_all_goes_on del: process_all.simps)
  qed
qed

lemma process_all_frame_all:
  "open_sessions (snd (process_all env rs w)) = open_sessions w \<and>
   running (snd (process_all env rs w)) = running w \<and>
   task (snd (process_all env rs w)) = task w \<and>
   tasks (snd (process_all env rs w)) = tasks w \<and>
   sleeps (snd (process_all env rs w)) = sleeps w"
proof (induction rs arbitrary: w)
  case Nil
  then show ?case by simp
next
  case (Cons r rs)
  obtain x w1 where p: "process_reminder env r w = (x, w1)"
    by (cases "process_reminder env r w") simp
  with process_reminder_frame [of env r w]
  have f: "open_sessions w1 = open_sessions w" "running w1 = running w" "task w1 = task w"
    "tasks w1 = tasks w" "sleeps w1 = sleeps w" by simp_all
  show ?case
  proof (cases x)
    case None
    with p f Cons.IH [of w1] show ?thesis by simp
  next
    case (Some e)
    with p f show ?thesis by simp
  qed
qed

lemma process_all_frame:
  "open_sessions (snd (process_all env rs w)) = open_sessions w"
  "running (snd (process_all env rs w)) = running w"
  "task (snd (process_all env rs w)) = task w"
  "tasks (snd (process_all env rs w)) = tasks w"
  "sleeps (snd (process_all env rs w)) = sleeps w"
  using process_all_frame_all [of env rs w] by simp_all

lemma reached_subset: "set (reached env ds) \<subseteq> set ds"
  by (induction ds) auto

lemma reached_distinct: "distinct (map rid ds) \<Longrightarrow> distinct (map rid (reached env ds))"
proof (induction ds)
  case Nil
  then show ?case by simp
next
  case (Cons d ds)
  then have "rid d \<notin> rid ` set ds" and "distinct (map rid ds)" by auto
  moreover have "rid ` set (reached env ds) \<subseteq> rid ` set ds"
    using reached_subset [of env ds] by blast
  ultimately show ?case using Cons.IH by auto
qed


lemma find_rid_None: "i \<notin> rid ` set rs \<Longrightarrow> find (\<lambda>d. rid d = i) rs = None"
  by (induction rs) auto

lemma fold_apply_outcome:
  "distinct (map rid rs) \<Longrightarrow>
   fold (apply_outcome env) rs rows = map (settle_by env rs) rows"
proof (induction rs arbitrary: rows)
  case Nil
  then show ?case by (simp add: settle_by_def)
next
  case (Cons d rs)
  then have fresh: "rid d \<notin> rid ` set rs" and dist: "distinct (map rid rs)" by auto
  have "fold (apply_outcome env) (d # rs) rows = map (settle_by env rs) (apply_outcome env d rows)"
    using Cons.IH [OF dist] by simp
  also have "\<dots> = map (settle_by env (d # rs)) rows"
    using find_rid_None [OF fresh]
    by (auto simp: apply_outcome_def write_status_def settle_by_def split: option.split)
  finally show ?case .
qed

lemma same_rid_same_row:
  "distinct (map rid rows) \<Longrightarrow> x \<in> set rows \<Longrightarrow> y \<in> set rows \<Longrightarrow> rid x = rid y \<Longrightarrow> x = y"
  by (meson distinct_map inj_onD)

lemma find_rid_sublist:
  assumes "distinct (map rid rows)" and "set rs \<subseteq> set rows" and "x \<in> set rows"
  shows "find (\<lambda>d. rid d = rid x) rs = (if x \<in> set rs then Some x else None)"
  using assms(2)
proof (induction rs)
  case Nil
  then show ?case by simp
next
  case (Cons d rs)
  then have d: "d \<in> set rows" and sub: "set rs \<subseteq> set rows" by auto
  show ?case
  proof (cases "rid d = rid x")
    case True
    with assms(1,3) d have "d = x" by (simp add: same_rid_same_row)
    then show ?thesis by simp
  next
    case False
    then have "d \<noteq> x" by auto
    with False Cons.IH [OF sub] show ?thesis by auto
  qed
qed

lemma settle_row:
  assumes "distinct (map rid rows)" and "x \<in> set rows"
  shows "settle env rows x =
           (if x \<in> set (reached env (filter (is_due (now env)) rows))
            then (case outcome env x of None \<Rightarrow> x | Some st \<Rightarrow> x\<lparr>status := st\<rparr>)
            else x)"
proof -
  have "set (reached env (filter (is_due (now env)) rows)) \<subseteq> set rows"
    using reached_subset [of env "filter (is_due (now env)) rows"] by auto
  from find_rid_sublist [OF assms(1) this assms(2)]
  show ?thesis by (simp add: settle_def settle_by_def)
qed

lemma outcome_terminal: "outcome env r = Some st \<Longrightarrow> st = completed \<or> st = failed"
  by (auto simp: outcome_def split: sum.splits option.splits if_splits)

lemma settle_not_due:
  assumes "distinct (map rid rows)" and "x \<in> set rows" and "\<not> is_due (now env) x"
  shows "settle env rows x = x"
proof -
  have "x \<notin> set (filter (is_due (now env)) rows)" using assms(3) by simp
  then have "x \<notin> set (reached env (filter (is_due (now env)) rows))"
    using reached_subset [of env "filter (is_due (now env)) rows"] by blast
  then show ?thesis using assms(1,2) by (simp add: settle_row)
qed

lemma settle_cases:
  assumes "distinct (map rid rows)" and "x \<in> set rows"
  shows "settle env rows x = x \<or>
         status x = scheduled \<and>
         (settle env rows x = x\<lparr>status := completed\<rparr> \<or> settle env rows x = x\<lparr>status := failed\<rparr>)"
proof (cases "is_due (now env) x")
  case False
  with assms show ?thesis by (simp add: settle_not_due)
next
  case True
  then have s: "status x = scheduled" by (simp add: is_due_def)
  show ?thesis
  proof (cases "x \<in> set (reached env (filter (is_due (now env)) rows))")
    case False
    with assms show ?thesis by (simp add: settle_row)
  next
    case r: True
    show ?thesis
    proof (cases "outcome env x")
      case None
      with assms r show ?thesis by (simp add: settle_row)
    next
      case (Some st)
      then have "st = completed \<or> st = failed" by (rule outcome_terminal)
      moreover have "settle env rows x = x\<lparr>status := st\<rparr>"
        using assms r Some by (simp add: settle_row)
      ultimately show ?thesis using s by auto
    qed
  qed
qed

lemma rid_settle_by [simp]: "rid (settle_by env rs x) = rid x"
  by (simp add: settle_by_def split: option.split)

lemma rid_settle [simp]: "rid (settle env rows x) = rid x"
  by (simp add: settle_def)

lemma no_due_reminders_fields [simp]:
  "table (no_due_reminders w) = table w" "pending (no_due_reminders w) = pending w"
  "session (no_due_reminders w) = session w"
  "open_sessions (no_due_reminders w) = open_sessions w" "calls (no_due_reminders w) = calls w"
  "sleeps (no_due_reminders w) = sleeps w" "running (no_due_reminders w) = running w"
  "task (no_due_reminders w) = task w" "tasks (no_due_reminders w) = tasks w"
  by (simp_all add: no_due_reminders_def Let_def)

lemma close_fields [simp]:
  "table (close w) = table w" "pending (close w) = []" "session (close w) = Usable"
  "open_sessions (close w) = open_sessions w - 1" "calls (close w) = calls w"
  "sleeps (close w) = sleeps w" "running (close w) = running w"
  "task (close w) = task w" "tasks (close w) = tasks w" "logged (close w) = logged w"
  "check_count (close w) = check_count w"
  by (simp_all add: close_def)

lemma get_db_fields [simp]:
  "table (get_db w) = table w" "pending (get_db w) = []" "session (get_db w) = Usable"
  "open_sessions (get_db w) = open_sessions w + 1" "calls (get_db w) = calls w"
  "sleeps (get_db w) = sleeps w" "running (get_db w) = running w"
  "task (get_db w) = task w" "tasks (get_db w) = tasks w" "logged (get_db w) = logged w"
  "check_count (get_db w) = check_count w"
  by (simp_all add: get_db_def)

lemma check_try_table:
  assumes "distinct (map rid (table w))" and "session w = Usable" and "pending w = []"
    and "query_fault env = None"
  shows "table (snd (check_try env w)) = map (settle env (table w)) (table w)"
proof -
  let ?due = "filter (is_due (now env)) (table w)"
  have d: "distinct (map rid (reached env ?due))"
    using assms(1) by (simp add: reached_distinct distinct_map_filter)
  have "table (snd (check_try env w)) = fold (apply_outcome env) (reached env ?due) (table w)"
    using assms by (simp add: check_try_def get_due_reminders_def process_all_table)
  also have "\<dots> = map (settle_by env (reached env ?due)) (table w)"
    using d by (rule fold_apply_outcome)
  finally show ?thesis by (simp add: settle_def)
qed

lemma check_try_calls:
  assumes "session w = Usable" and "query_fault env = None"
  shows "calls (snd (check_try env w)) =
           calls w @ map rid (reached env (filter (is_due (now env)) (table w)))"
  using assms by (simp add: check_try_def get_due_reminders_def process_all_calls)

lemma check_try_fault:
  "query_fault env = Some e \<Longrightarrow> check_try env w = (Some e, w)"
  by (simp add: check_try_def get_due_reminders_def)

lemma check_try_frame:
  "open_sessions (snd (check_try env w)) = open_sessions w"
  "running (snd (check_try env w)) = running w"
  "task (snd (check_try env w)) = task w"
  "tasks (snd (check_try env w)) = tasks w"
  "sleeps (snd (check_try env w)) = sleeps w"
  by (simp_all add: check_try_def get_due_reminders_def process_all_frame
      split: option.split)

lemma tick_eq:
  "check_and_process_reminders env w =
     (None, close (case fst (check_try env (get_db w)) of
                     None \<Rightarrow> snd (check_try env (get_db w))
                   | Some e \<Rightarrow> log_msg EXCEPTION
                       (''Error checking for due reminders: '' @ exn_str e)
                       (snd (check_try env (get_db w)))))"
  by (cases "check_try env (get_db w)"; cases "fst (check_try env (get_db w))")
     (simp_all add: check_and_process_reminders_def)

lemma tick_returns: "fst (check_and_process_reminders env w) = None"
  by (simp add: tick_eq)

lemma tick_fields:
  "table (snd (check_and_process_reminders env w)) = table (snd (check_try env (get_db w)))"
  "calls (snd (check_and_process_reminders env w)) = calls (snd (check_try env (get_db w)))"
  "pending (snd (check_and_process_reminders env w)) = []"
  "session (snd (check_and_process_reminders env w)) = Usable"
  by (simp_all add: tick_eq split: option.split)

lemma tick_frame:
  "open_sessions (snd (check_and_process_reminders env w)) = open_sessions w"
  "running (snd (check_and_process_reminders env w)) = running w"
  "task (snd (check_and_process_reminders env w)) = task w"
  "tasks (snd (check_and_process_reminders env w)) = tasks w"
  "sleeps (snd (check_and_process_reminders env w)) = sleeps w"
  by (simp_all add: tick_eq check_try_frame split: option.split)

lemma tick_table:
  assumes "distinct (map rid (table w))"
  shows "table (snd (check_and_process_reminders env w)) =
           (if query_fault env = None then map (settle env (table w)) (table w) else table w)"
proof (cases "query_fault env")
  case None
  then show ?thesis using assms check_try_table [of "get_db w" env]
    by (simp add: tick_fields)
next
  case (Some e)
  then show ?thesis by (simp add: tick_fields check_try_fault)
qed

lemma tick_calls:
  "calls (snd (check_and_process_reminders env w)) =
     (if query_fault env = None
      then calls w @ map rid (reached env (filter (is_due (now env)) (table w)))
      else calls w)"
proof (cases "query_fault env")
  case None
  then show ?thesis using check_try_calls [of "get_db w" env] by (simp add: tick_fields)
next
  case (Some e)
  then show ?thesis by (simp add: tick_fields check_try_fault)
qed

lemma tick_rids:
  "distinct (map rid (table w)) \<Longrightarrow>
   map rid (table (snd (check_and_process_reminders env w))) = map rid (table w)"
  by (simp add: tick_table comp_def)

lemma tick_length:
  "distinct (map rid (table w)) \<Longrightarrow>
   length (table (snd (check_and_process_reminders env w))) = length (table w)"
  using tick_rids [of w env] by (metis length_map)

lemma tick_row:
  assumes "distinct (map rid (table w))" and "i < length (table w)"
  shows "table (snd (check_and_process_reminders env w)) ! i =
           (if query_fault env = None then settle env (table w) (table w ! i) else table w ! i)"
  using assms by (simp add: tick_table)

lemma tick_row_moves:
  assumes "distinct (map rid (table w))" and "i < length (table w)"
  shows "table (snd (check_and_process_reminders env w)) ! i = table w ! i \<or>
         status (table w ! i) = scheduled \<and>
         (table (snd (check_and_process_reminders env w)) ! i = (table w ! i)\<lparr>status := completed\<rparr> \<or>
          table (snd (check_and_process_reminders env w)) ! i = (table w ! i)\<lparr>status := failed\<rparr>)"
proof (cases "query_fault env = None")
  case True
  then have "table (snd (check_and_process_reminders env w)) ! i = settle env (table w) (table w ! i)"
    using assms by (simp add: tick_row)
  moreover have "table w ! i \<in> set (table w)" using assms(2) by simp
  ultimately show ?thesis using settle_cases [OF assms(1), of "table w ! i" env] by simp
next
  case False
  then obtain e where "query_fault env = Some e" by auto
  then have "table (snd (check_and_process_reminders env w)) ! i = table w ! i"
    using assms by (simp add: tick_row)
  then show ?thesis by simp
qed

lemma ticks_rids:
  "distinct (map rid (table w)) \<Longrightarrow> map rid (table (ticks envs w)) = map rid (table w)"
proof (induction envs arbitrary: w)
  case Nil
  then show ?case by simp
next
  case (Cons env envs)
  let ?w1 = "snd (check_and_process_reminders env w)"
  have r: "map rid (table ?w1) = map rid (table w)" using Cons.prems by (rule tick_rids)
  with Cons.prems have "distinct (map rid (table ?w1))" by simp
  then have "map rid (table (ticks envs ?w1)) = map rid (table ?w1)" by (rule Cons.IH)
  with r show ?case by simp
qed

lemma ticks_length:
  "distinct (map rid (table w)) \<Longrightarrow> length (table (ticks envs w)) = length (table w)"
  using ticks_rids [of w envs] by (metis length_map)

lemma ticks_row_moves:
  assumes "distinct (map rid (table w))" and "i < length (table w)"
  shows "table (ticks envs w) ! i = table w ! i \<or>
         status (table w ! i) = scheduled \<and>
         (table (ticks envs w) ! i = (table w ! i)\<lparr>status := completed\<rparr> \<or>
          table (ticks envs w) ! i = (table w ! i)\<lparr>status := failed\<rparr>)"
  using assms
proof (induction envs arbitrary: w)
  case Nil
  then show ?case by simp
next
  case (Cons env envs)
  let ?w1 = "snd (check_and_process_reminders env w)"
  let ?x = "table w ! i" and ?x1 = "table ?w1 ! i" and ?y = "table (ticks envs ?w1) ! i"
  have d1: "distinct (map rid (table ?w1))" using Cons.prems(1) by (simp add: tick_rids)
  have l1: "i < length (table ?w1)" using Cons.prems by (simp add: tick_length)
  have ih: "?y = ?x1 \<or> status ?x1 = scheduled \<and>
      (?y = ?x1\<lparr>status := completed\<rparr> \<or> ?y = ?x1\<lparr>status := failed\<rparr>)"
    using d1 l1 by (rule Cons.IH)
  have step: "?x1 = ?x \<or> status ?x = scheduled \<and>
      (?x1 = ?x\<lparr>status := completed\<rparr> \<or> ?x1 = ?x\<lparr>status := failed\<rparr>)"
    using Cons.prems by (rule tick_row_moves)
  have y: "table (ticks (env # envs) w) ! i = ?y" by simp
  from step show ?case
  proof (elim disjE conjE)
    assume "?x1 = ?x"
    with ih y show ?thesis by metis
  next
    assume s: "status ?x = scheduled" and m: "?x1 = ?x\<lparr>status := completed\<rparr>"
    then have "status ?x1 \<noteq> scheduled" by simp
    with ih have "?y = ?x1" by blast
    with s m y show ?thesis by metis
  next
    assume s: "status ?x = scheduled" and m: "?x1 = ?x\<lparr>status := failed\<rparr>"
    then have "status ?x1 \<noteq> scheduled" by simp
    with ih have "?y = ?x1" by blast
    with s m y show ?thesis by metis
  qed
qed

lemma terminal_not_due:
  assumes "distinct (map rid (table w))" and "x \<in> set (table w)" and "status x \<noteq> scheduled"
  shows "rid x \<notin> rid ` set (filter (is_due t) (table w))"
proof
  assume "rid x \<in> rid ` set (filter (is_due t) (table w))"
  then obtain d where d: "d \<in> set (table w)" "is_due t d" "rid x = rid d" by auto
  with assms have "x = d" by (simp add: same_rid_same_row)
  with d assms(3) show False by (simp add: is_due_def)
qed

lemma terminal_row_tick:
  assumes "distinct (map rid (table w))" and "x \<in> set (table w)" and "status x \<noteq> scheduled"
  shows "x \<in> set (table (snd (check_and_process_reminders env w)))"
    and "count_list (calls (snd (check_and_process_reminders env w))) (rid x) =
           count_list (calls w) (rid x)"
proof -
  have "\<not> is_due (now env) x" using assms(3) by (simp add: is_due_def)
  then have "settle env (table w) x = x" using assms(1,2) by (simp add: settle_not_due)
  then have "x \<in> set (map (settle env (table w)) (table w))" using assms(2) by force
  then show "x \<in> set (table (snd (check_and_process_reminders env w)))"
    using assms by (simp add: tick_table)
  have "rid x \<notin> rid ` set (filter (is_due (now env)) (table w))"
    using assms by (rule terminal_not_due)
  moreover have "rid ` set (reached env (filter (is_due (now env)) (table w)))
      \<subseteq> rid ` set (filter (is_due (now env)) (table w))"
    using reached_subset [of env "filter (is_due (now env)) (table w)"] by blast
  ultimately have "rid x \<notin> set (map rid (reached env (filter (is_due (now env)) (table w))))"
    by auto
  then have "count_list (map rid (reached env (filter (is_due (now env)) (table w)))) (rid x) = 0"
    by (simp add: count_list_0_iff)
  then show "count_list (calls (snd (check_and_process_reminders env w))) (rid x) =
           count_list (calls w) (rid x)"
    by (simp add: tick_calls)
qed

lemma terminal_row_ticks:
  assumes "distinct (map rid (table w))" and "x \<in> set (table w)" and "status x \<noteq> scheduled"
  shows "x \<in> set (table (ticks envs w)) \<and>
         count_list (calls (ticks envs w)) (rid x) = count_list (calls w) (rid x)"
  using assms
proof (induction envs arbitrary: w)
  case Nil
  then show ?case by simp
next
  case (Cons env envs)
  let ?w1 = "snd (check_and_process_reminders env w)"
  have d1: "distinct (map rid (table ?w1))" using Cons.prems(1) by (simp add: tick_rids)
  have x1: "x \<in> set (table ?w1)" using Cons.prems by (rule terminal_row_tick(1))
  have c1: "count_list (calls ?w1) (rid x) = count_list (calls w) (rid x)"
    using Cons.prems by (rule terminal_row_tick(2))
  from Cons.IH [OF d1 x1 Cons.prems(3)] c1 show ?case by simp
qed







lemma tick_query_fault:
  assumes "query_fault env = Some e"
  shows "check_and_process_reminders env w =
           (None, w\<lparr>pending := [], session := Usable,
                    logged := logged w @
                      [(EXCEPTION, ''Error checking for due reminders: '' @ exn_str e)]\<rparr>)"
  using assms
  by (simp add: check_and_process_reminders_def check_try_fault get_db_def close_def
      log_msg_def)

lemma loop_body_eq:
  "loop_body interval env stop_requested w =
     (snd (check_and_process_reminders env w))
       \<lparr>sleeps := sleeps w @ [interval],
        running := (if stop_requested then False else running w)\<rparr>"
  using tick_returns [of env w] tick_frame [of env w]
  by (cases "check_and_process_reminders env w") (simp add: loop_body_def)

lemma filter_active_update:
  "h < length ts \<Longrightarrow> ts ! h = Active \<Longrightarrow> length (filter (\<lambda>t. t = Active) ts) = 1 \<Longrightarrow>
   st \<noteq> Active \<Longrightarrow> filter (\<lambda>t. t = Active) (ts[h := st]) = []"
proof (induction ts arbitrary: h)
  case Nil
  then show ?case by simp
next
  case (Cons x xs)
  show ?case
  proof (cases h)
    case 0
    with Cons.prems show ?thesis by simp
  next
    case (Suc k)
    with Cons.prems have k: "k < length xs" "xs ! k = Active" by simp_all
    then have "Active \<in> set xs" by (metis nth_mem)
    then have ne: "filter (\<lambda>t. t = Active) xs \<noteq> []" by (simp add: filter_empty_conv)
    have x: "x \<noteq> Active"
    proof
      assume "x = Active"
      with Cons.prems(3) have "filter (\<lambda>t. t = Active) xs = []" by simp
      with ne show False by simp
    qed
    with Cons.prems(3) have "length (filter (\<lambda>t. t = Active) xs) = 1" by simp
    with k Cons.prems(4) have "filter (\<lambda>t. t = Active) (xs[k := st]) = []"
      by (simp add: Cons.IH)
    with x Suc show ?thesis by simp
  qed
qed

lemma start_running: "running w \<Longrightarrow> start w = log_msg WARNING ''Scheduler is already running'' w"
  by (simp add: start_def)

lemma start_idle:
  "\<not> running w \<Longrightarrow>
   start w = log_msg INFO ''Reminder scheduler task created''
               (w\<lparr>running := True, task := Some (length (tasks w)),
                  tasks := tasks w @ [Active]\<rparr>)"
  by (simp add: start_def)

lemma running_start [simp]: "running (start w)"
  by (simp add: start_def)

lemma lifecycle_inv_start: "lifecycle_inv w \<Longrightarrow> lifecycle_inv (start w)"
  by (cases "running w")
     (auto simp: start_def lifecycle_inv_def active_tasks_def nth_append split: option.splits)

lemma stop_idle: "\<not> running w \<Longrightarrow> stop ew w = log_msg WARNING ''Scheduler is not running'' w"
  by (simp add: stop_def)

lemma stop_running:
  assumes "running w" and "task w = Some h" and "h < length (tasks w)" and "tasks w ! h = Active"
  shows "tasks (stop ew w) = (tasks w)[h := (if ew 5 then Finished else Cancelled)]"
    and "task (stop ew w) = None" and "\<not> running (stop ew w)"
  using assms by (simp_all add: stop_def stop_wait_def stop_signal_def task_state_of_def)

lemma stop_effect_all:
  assumes "lifecycle_inv w"
  shows "\<not> running (stop ew w) \<and> task (stop ew w) = None \<and> active_tasks (stop ew w) = []"
proof (cases "task w")
  case None
  with assms have "\<not> running w" and "active_tasks w = []" by (simp_all add: lifecycle_inv_def)
  with None show ?thesis by (simp add: stop_idle active_tasks_def)
next
  case (Some h)
  with assms have r: "running w" "h < length (tasks w)" "tasks w ! h = Active"
    and one: "length (filter (\<lambda>t. t = Active) (tasks w)) = 1"
    by (simp_all add: lifecycle_inv_def active_tasks_def)
  have "tasks (stop ew w) = (tasks w)[h := (if ew 5 then Finished else Cancelled)]"
    using r Some by (simp add: stop_running)
  then have "active_tasks (stop ew w) = []"
    using r one by (simp add: active_tasks_def filter_active_update)
  with r Some show ?thesis by (simp add: stop_running)
qed

lemma stop_effect:
  assumes "lifecycle_inv w"
  shows "\<not> running (stop ew w)" and "task (stop ew w) = None" and "active_tasks (stop ew w) = []"
  using stop_effect_all [OF assms, of ew] by simp_all

lemma lifecycle_inv_stop: "lifecycle_inv w \<Longrightarrow> lifecycle_inv (stop ew w)"
  using stop_effect [of w ew] by (simp add: lifecycle_inv_def)

lemma lifecycle_inv_init: "lifecycle_inv (init rows)"
  by (simp add: lifecycle_inv_def init_def active_tasks_def)

lemmas reminder_defs = pills_def dentist_def birthday_def old_call_def demo_table_def

lemmas env_defs = calm_env_def faulty_env_def broken_env_def lost_commit_env_def
  late_commit_env_def down_env_def answered_def rejected_def













subsection \<open>The claims\<close>






text \<open>
  Claim C3. When the query for due reminders raises, the tick returns normally: the
  exception is logged, the table is unchanged, no call is placed, and the session
  opened for the tick is closed again. The iteration of the loop then sleeps for the
  interval and leaves \<^verbatim>\<open>_running\<close> as it is; the next iteration runs the tick again
  and sleeps again, after which a loop that has been asked to stop returns.
\<close>

theorem query_fault_skips_tick:
  assumes "query_fault env = Some e"
  shows "check_and_process_reminders env w =
           (None, w\<lparr>pending := [], session := Usable,
                    logged := logged w @
                      [(EXCEPTION, ''Error checking for due reminders: '' @ exn_str e)]\<rparr>) \<and>
         table (snd (check_and_process_reminders env w)) = table w \<and>
         calls (snd (check_and_process_reminders env w)) = calls w \<and>
         open_sessions (get_db w) = open_sessions w + 1 \<and>
         open_sessions (snd (check_and_process_reminders env w)) = open_sessions w \<and>
         loop_body interval env False w =
           w\<lparr>pending := [], session := Usable,
             logged := logged w @
               [(EXCEPTION, ''Error checking for due reminders: '' @ exn_str e)],
             sleeps := sleeps w @ [interval]\<rparr> \<and>
         (running w \<longrightarrow>
            loop_iterations interval [(env, False), (env', True)] w =
              Some ((snd (check_and_process_reminders env'
                            (w\<lparr>pending := [], session := Usable,
                               logged := logged w @
                                 [(EXCEPTION,
                                   ''Error checking for due reminders: '' @ exn_str e)],
                               sleeps := sleeps w @ [interval]\<rparr>)))
                    \<lparr>sleeps := sleeps w @ [interval, interval], running := False\<rparr>))"
proof (intro conjI impI)
  show t: "check_and_process_reminders env w =
           (None, w\<lparr>pending := [], session := Usable,
                    logged := logged w @
                      [(EXCEPTION, ''Error checking for due reminders: '' @ exn_str e)]\<rparr>)"
    using assms by (rule tick_query_fault)
  then show "table (snd (check_and_process_reminders env w)) = table w"
    and "calls (snd (check_and_process_reminders env w)) = calls w"
    and "open_sessions (snd (check_and_process_reminders env w)) = open_sessions w"
    by simp_all
  show "open_sessions (get_db w) = open_sessions w + 1" by simp
  show b: "loop_body interval env False w =
           w\<lparr>pending := [], session := Usable,
             logged := logged w @
               [(EXCEPTION, ''Error checking for due reminders: '' @ exn_str e)],
             sleeps := sleeps w @ [interval]\<rparr>"
    using t by (simp add: loop_body_def)
  assume r: "running w"
  let ?w1 = "w\<lparr>pending := [], session := Usable,
               logged := logged w @
                 [(EXCEPTION, ''Error checking for due reminders: '' @ exn_str e)],
               sleeps := sleeps w @ [interval]\<rparr>"
  have r1: "running ?w1" using r by simp
  have "loop_iterations interval [(env, False), (env', True)] w =
      loop_iterations interval [(env', True)] ?w1"
    using r b by simp
  also have "\<dots> = loop_iterations interval [] (loop_body interval env' True ?w1)"
    using r1 by simp
  also have "\<dots> = Some (loop_body interval env' True ?w1)"
    by (simp add: loop_body_eq)
  also have "loop_body interval env' True ?w1 =
      (snd (check_and_process_reminders env' ?w1))
        \<lparr>sleeps := sleeps w @ [interval, interval], running := False\<rparr>"
    by (simp add: loop_body_eq)
  finally show "loop_iterations interval [(env, False), (env', True)] w =
      Some ((snd (check_and_process_reminders env' ?w1))
              \<lparr>sleeps := sleeps w @ [interval, interval], running := False\<rparr>)" .
qed

text \<open>The property at the example inputs.\<close>

theorem query_fault_skips_tick_witness:
  "fst (check_and_process_reminders down_env (start (init demo_table))) = None \<and>
   table (snd (check_and_process_reminders down_env (start (init demo_table)))) = demo_table \<and>
   open_sessions (snd (check_and_process_reminders down_env (start (init demo_table)))) = 0 \<and>
   sleeps (loop_body 30 down_env False (start (init demo_table))) = [30] \<and>
   map_option sleeps
     (loop_iterations 30 [(down_env, False), (calm_env, True)] (start (init demo_table))) =
     Some [30, 30] \<and>
   map_option running
     (loop_iterations 30 [(down_env, False), (calm_env, True)] (start (init demo_table))) =
     Some False"
proof -
  have q: "query_fault down_env = Some (OtherException ''connection refused'')"
    by (simp add: down_env_def)
  have r: "running (start (init demo_table))" by (simp add: start_def init_def)
  have i: "table (start (init demo_table)) = demo_table"
    "open_sessions (start (init demo_table)) = 0" "sleeps (start (init demo_table)) = []"
    by (simp_all add: start_def init_def)
  note all = query_fault_skips_tick [OF q, of "start (init demo_table)" 30 calm_env]
  from all have "check_and_process_reminders down_env (start (init demo_table)) =
      (None, (start (init demo_table))
         \<lparr>pending := [], session := Usable,
          logged := logged (start (init demo_table)) @
            [(EXCEPTION, ''Error checking for due reminders: ''
                         @ exn_str (OtherException ''connection refused''))]\<rparr>)" by blast
  then have 1: "fst (check_and_process_reminders down_env (start (init demo_table))) = None"
    by simp
  from all i have 2:
    "table (snd (check_and_process_reminders down_env (start (init demo_table)))) = demo_table"
    and 3:
    "open_sessions (snd (check_and_process_reminders down_env (start (init demo_table)))) = 0"
    by simp_all
  from all have "loop_body 30 down_env False (start (init demo_table)) =
      (start (init demo_table))
        \<lparr>pending := [], session := Usable,
         logged := logged (start (init demo_table)) @
           [(EXCEPTION, ''Error checking for due reminders: ''
                        @ exn_str (OtherException ''connection refused''))],
         sleeps := sleeps (start (init demo_table)) @ [30]\<rparr>" by blast
  with i have 4: "sleeps (loop_body 30 down_env False (start (init demo_table))) = [30]"
    by simp
  from all r have "loop_iterations 30 [(down_env, False), (calm_env, True)]
        (start (init demo_table)) =
      Some ((snd (check_and_process_reminders calm_env
                    ((start (init demo_table))
                       \<lparr>pending := [], session := Usable,
                        logged := logged (start (init demo_table)) @
                          [(EXCEPTION, ''Error checking for due reminders: ''
                                       @ exn_str (OtherException ''connection refused''))],
                        sleeps := sleeps (start (init demo_table)) @ [30]\<rparr>)))
            \<lparr>sleeps := sleeps (start (init demo_table)) @ [30, 30], running := False\<rparr>)"
    by blast
  with i have 5: "map_option sleeps
       (loop_iterations 30 [(down_env, False), (calm_env, True)] (start (init demo_table))) =
       Some [30, 30]"
    and 6: "map_option running
       (loop_iterations 30 [(down_env, False), (calm_env, True)] (start (init demo_table))) =
       Some False"
    by simp_all
  from 1 2 3 4 5 6 show ?thesis by blast
qed

text \<open>
  Claim C4. A row whose status is not \<open>scheduled\<close>, or whose \<open>trigger_at\<close> is after
  the clock of the tick, is the same row after the tick, in the same place of the
  table (ids are a primary key: no two rows share one).
\<close>

theorem tick_leaves_others_unchanged:
  assumes "distinct (map rid (table w))" and "i < length (table w)"
    and "status (table w ! i) \<noteq> scheduled \<or> now env < trigger_at (table w ! i)"
  shows "length (table (snd (check_and_process_reminders env w))) = length (table w) \<and>
         table (snd (check_and_process_reminders env w)) ! i = table w ! i"
proof
  show "length (table (snd (check_and_process_reminders env w))) = length (table w)"
    using assms(1) by (rule tick_length)
  have "\<not> is_due (now env) (table w ! i)" using assms(3) by (auto simp: is_due_def)
  moreover have "table w ! i \<in> set (table w)" using assms(2) by simp
  ultimately have "settle env (table w) (table w ! i) = table w ! i"
    using assms(1) by (simp add: settle_not_due)
  then show "table (snd (check_and_process_reminders env w)) ! i = table w ! i"
    using assms(1,2) by (simp add: tick_row)
qed

text \<open>The property at the example inputs.\<close>

theorem tick_leaves_others_unchanged_witness:
  "table (snd (check_and_process_reminders calm_env (init demo_table))) ! 2 = birthday \<and>
   table (snd (check_and_process_reminders calm_env (init demo_table))) ! 3 = old_call"
  using tick_leaves_others_unchanged [of "init demo_table" 2 calm_env]
    tick_leaves_others_unchanged [of "init demo_table" 3 calm_env]
  by (simp add: reminder_defs env_defs init_def)

text \<open>
  Claim C5. After any sequence of ticks the table has the same length, and each row is
  either unchanged or was \<open>scheduled\<close> and differs only by its status, now
  \<open>completed\<close> or \<open>failed\<close>. A row whose status is not \<open>scheduled\<close> is unchanged
  by any sequence of ticks, and no later query for due reminders returns a reminder
  with its id.
\<close>

theorem status_transitions_one_way:
  assumes "distinct (map rid (table w))" and "i < length (table w)"
  shows "length (table (ticks envs w)) = length (table w) \<and>
         (table (ticks envs w) ! i = table w ! i \<or>
          status (table w ! i) = scheduled \<and>
          (table (ticks envs w) ! i = (table w ! i)\<lparr>status := completed\<rparr> \<or>
           table (ticks envs w) ! i = (table w ! i)\<lparr>status := failed\<rparr>)) \<and>
         (status (table w ! i) \<noteq> scheduled \<longrightarrow>
            table (ticks envs w) ! i = table w ! i \<and>
            (\<forall>env due. get_due_reminders env (ticks envs w) = Inr due \<longrightarrow>
               rid (table w ! i) \<notin> rid ` set due))"
proof (intro conjI impI allI)
  show len: "length (table (ticks envs w)) = length (table w)"
    using assms(1) by (rule ticks_length)
  show moves: "table (ticks envs w) ! i = table w ! i \<or>
          status (table w ! i) = scheduled \<and>
          (table (ticks envs w) ! i = (table w ! i)\<lparr>status := completed\<rparr> \<or>
           table (ticks envs w) ! i = (table w ! i)\<lparr>status := failed\<rparr>)"
    using assms by (rule ticks_row_moves)
  assume t: "status (table w ! i) \<noteq> scheduled"
  with moves show same: "table (ticks envs w) ! i = table w ! i" by blast
  fix env due
  assume q: "get_due_reminders env (ticks envs w) = Inr due"
  have d: "distinct (map rid (table (ticks envs w)))" using assms(1) by (simp add: ticks_rids)
  have "table (ticks envs w) ! i \<in> set (table (ticks envs w))" using assms(2) len by simp
  with same have m: "table w ! i \<in> set (table (ticks envs w))" by simp
  have "due = filter (is_due (now env)) (table (ticks envs w))"
    using q by (simp add: get_due_reminders_def split: option.splits)
  then show "rid (table w ! i) \<notin> rid ` set due"
    using terminal_not_due [OF d m t] by simp
qed

text \<open>The property at the example inputs.\<close>

theorem status_transitions_one_way_witness:
  "length (table (ticks [calm_env, faulty_env] (init demo_table))) = 4 \<and>
   table (ticks [calm_env, faulty_env] (init demo_table)) ! 3 = old_call"
  using status_transitions_one_way [of "init demo_table" 3 "[calm_env, faulty_env]"]
  by (simp add: reminder_defs init_def)

text \<open>
  Claim C6, as stated, at a scheduler that has just been started: in the state that
  \<^verbatim>\<open>stop()\<close> reaches at its first \<^verbatim>\<open>await\<close>, \<^verbatim>\<open>is_running\<close> is already false while
  the loop task has not ended.
\<close>

theorem idle_before_task_ends_counterexample:
  "running (start (init [])) \<and>
   stop never_exits (start (init [])) = stop_wait never_exits (stop_signal (start (init []))) \<and>
   tasks (stop_signal (start (init []))) ! 0 = Active \<and>
   \<not> is_running (stop_signal (start (init [])))"
  by (simp add: stop_def stop_signal_def start_def init_def is_running_def)

text \<open>
  Claim C6, amended. \<^verbatim>\<open>stop()\<close> on a running scheduler first clears \<^verbatim>\<open>_running\<close>,
  which is the signal that makes the loop exit, so \<^verbatim>\<open>is_running\<close> is false from then
  on while the task is still alive. It then waits for the task with a timeout of 5
  seconds: the task ends as finished when it exits in time, and as cancelled, with a
  warning logged, when it does not. In both cases the task has ended and the task
  handle is cleared when \<^verbatim>\<open>stop()\<close> returns.
\<close>

theorem stop_signals_then_waits:
  assumes "running w" and "task w = Some h" and "h < length (tasks w)" and "tasks w ! h = Active"
  shows "stop exits_within w = stop_wait exits_within (stop_signal w) \<and>
         \<not> is_running (stop_signal w) \<and>
         tasks (stop_signal w) = tasks w \<and> task (stop_signal w) = Some h \<and>
         tasks (stop exits_within w) =
           (tasks w)[h := (if exits_within 5 then Finished else Cancelled)] \<and>
         tasks (stop exits_within w) ! h \<noteq> Active \<and>
         task (stop exits_within w) = None \<and>
         \<not> is_running (stop exits_within w) \<and>
         (\<not> exits_within 5 \<longrightarrow>
            (WARNING, ''Scheduler task did not stop gracefully, cancelling'')
              \<in> set (logged (stop exits_within w)))"
proof (intro conjI impI)
  show "stop exits_within w = stop_wait exits_within (stop_signal w)"
    using assms(1) by (simp add: stop_def)
  show "\<not> is_running (stop_signal w)" by (simp add: is_running_def stop_signal_def)
  show "tasks (stop_signal w) = tasks w" by (simp add: stop_signal_def)
  show "task (stop_signal w) = Some h" using assms(2) by (simp add: stop_signal_def)
  show t: "tasks (stop exits_within w) =
           (tasks w)[h := (if exits_within 5 then Finished else Cancelled)]"
    using assms by (rule stop_running)
  then show "tasks (stop exits_within w) ! h \<noteq> Active" using assms(3) by simp
  show "task (stop exits_within w) = None" using assms by (rule stop_running)
  show "\<not> is_running (stop exits_within w)"
    using assms by (simp add: is_running_def stop_running)
next
  assume "\<not> exits_within 5"
  then show "(WARNING, ''Scheduler task did not stop gracefully, cancelling'')
              \<in> set (logged (stop exits_within w))"
    using assms by (simp add: stop_def stop_wait_def stop_signal_def task_state_of_def)
qed

text \<open>The property at the example inputs.\<close>

theorem stop_signals_then_waits_witness:
  "\<not> is_running (stop_signal (start (init []))) \<and>
   tasks (stop_signal (start (init []))) = [Active] \<and>
   tasks (stop never_exits (start (init []))) = [Cancelled] \<and>
   tasks (stop exits_at_once (start (init []))) = [Finished] \<and>
   task (stop never_exits (start (init []))) = None \<and>
   \<not> is_running (stop never_exits (start (init [])))"
proof -
  have h: "running (start (init []))" "task (start (init [])) = Some 0"
    "0 < length (tasks (start (init [])))" "tasks (start (init [])) ! 0 = Active"
    by (simp_all add: start_def init_def)
  have t: "tasks (start (init [])) = [Active]" by (simp add: start_def init_def)
  note late = stop_signals_then_waits [OF h, of never_exits]
  note early = stop_signals_then_waits [OF h, of exits_at_once]
  from late have 1: "\<not> is_running (stop_signal (start (init [])))"
    and 2: "tasks (stop_signal (start (init []))) = tasks (start (init []))"
    and 3: "tasks (stop never_exits (start (init []))) =
      (tasks (start (init [])))[0 := (if never_exits 5 then Finished else Cancelled)]"
    and 4: "task (stop never_exits (start (init []))) = None"
    and 5: "\<not> is_running (stop never_exits (start (init [])))"
    by blast+
  from early have 6: "tasks (stop exits_at_once (start (init []))) =
      (tasks (start (init [])))[0 := (if exits_at_once 5 then Finished else Cancelled)]"
    by blast
  from 1 2 3 4 5 6 t show ?thesis by (simp add: never_exits_def exits_at_once_def)
qed

text \<open>
  Claim C7. From any state that \<open>start\<close> and \<open>stop\<close> can reach: a second call of
  \<^verbatim>\<open>start()\<close> only logs a warning, creates no task and leaves exactly one loop task
  alive; \<^verbatim>\<open>stop()\<close> on a scheduler that is not running only logs a warning; after
  \<^verbatim>\<open>stop()\<close>, \<^verbatim>\<open>is_running\<close> is false, no loop task is alive, and the loop, were
  its condition tested again, would run no further tick.
\<close>

theorem start_stop_lifecycle:
  assumes "lifecycle_inv w"
  shows "lifecycle_inv (start w) \<and> lifecycle_inv (stop exits_within w) \<and>
         start (start w) = log_msg WARNING ''Scheduler is already running'' (start w) \<and>
         tasks (start (start w)) = tasks (start w) \<and>
         task (start (start w)) = task (start w) \<and>
         length (active_tasks (start (start w))) = 1 \<and>
         (\<not> running w \<longrightarrow>
            stop exits_within w = log_msg WARNING ''Scheduler is not running'' w) \<and>
         \<not> is_running (stop exits_within w) \<and>
         task (stop exits_within w) = None \<and>
         active_tasks (stop exits_within w) = [] \<and>
         loop_iterations interval iterations (stop exits_within w) = Some (stop exits_within w)"
proof (intro conjI impI)
  show i: "lifecycle_inv (start w)" using assms by (rule lifecycle_inv_start)
  show "lifecycle_inv (stop exits_within w)" using assms by (rule lifecycle_inv_stop)
  show twice: "start (start w) = log_msg WARNING ''Scheduler is already running'' (start w)"
    by (simp add: start_running)
  then show "tasks (start (start w)) = tasks (start w)"
    and "task (start (start w)) = task (start w)" by simp_all
  from i have "length (active_tasks (start w)) = 1"
    by (simp add: lifecycle_inv_def split: option.splits)
  with twice show "length (active_tasks (start (start w))) = 1"
    by (simp add: active_tasks_def)
  show n: "\<not> is_running (stop exits_within w)"
    using assms by (simp add: is_running_def stop_effect)
  show "task (stop exits_within w) = None" using assms by (rule stop_effect)
  show "active_tasks (stop exits_within w) = []" using assms by (rule stop_effect)
  from n show "loop_iterations interval iterations (stop exits_within w) =
      Some (stop exits_within w)"
    by (cases iterations) (auto simp: is_running_def)
next
  assume "\<not> running w"
  then show "stop exits_within w = log_msg WARNING ''Scheduler is not running'' w"
    by (rule stop_idle)
qed

text \<open>The property at the example inputs.\<close>

theorem start_stop_lifecycle_witness:
  "length (active_tasks (start (start (init [])))) = 1 \<and>
   stop never_exits (init []) = log_msg WARNING ''Scheduler is not running'' (init []) \<and>
   \<not> is_running (stop never_exits (start (init []))) \<and>
   active_tasks (stop never_exits (start (init []))) = [] \<and>
   loop_iterations 30 [(calm_env, False)] (stop never_exits (start (init []))) =
     Some (stop never_exits (start (init [])))"
proof -
  have a: "lifecycle_inv (init [])" by (rule lifecycle_inv_init)
  then have b: "lifecycle_inv (start (init []))" by (rule lifecycle_inv_start)
  have c: "\<not> running (init [])" by (simp add: init_def)
  note first = start_stop_lifecycle [OF a, of never_exits 30 "[(calm_env, False)]"]
  note second = start_stop_lifecycle [OF b, of never_exits 30 "[(calm_env, False)]"]
  from first have 1: "length (active_tasks (start (start (init [])))) = 1" by blast
  from first c have 2:
    "stop never_exits (init []) = log_msg WARNING ''Scheduler is not running'' (init [])"
    by blast
  from second have 3: "\<not> is_running (stop never_exits (start (init [])))"
    and 4: "active_tasks (stop never_exits (start (init []))) = []"
    and 5: "loop_iterations 30 [(calm_env, False)] (stop never_exits (start (init []))) =
      Some (stop never_exits (start (init [])))"
    by blast+
  from 1 2 3 4 5 show ?thesis by blast
qed




end
